theory Spec2Isabelle
  imports Complex_Main
begin

section \<open>Floating-point values, arrays and the random generator\<close>

text \<open>
  The samplers compute on IEEE doubles. A double is modelled as a finite value (an exact
  real: rounding is not modelled, and the two zeros are one value), one of the two
  infinities, or NaN. The operations follow IEEE 754 on the special values: NaN
  propagates, \<open>inf - inf\<close> and \<open>0 * inf\<close> are NaN, and every comparison with NaN is
  false. The sums and products of finite values are exact; the exponential, whose
  argument is an energy or a log-density of any size, leaves the range of the doubles as
  \<open>np.exp\<close> does (below).
\<close>

datatype fl = Fin real | PInf | NInf | NaN

datatype py_error = IndexError | ValueError | OverflowError | ZeroDivisionError | UnboundLocalError

type_synonym vec = "fl list"

fun fneg :: "fl \<Rightarrow> fl" where
  "fneg (Fin a) = Fin (- a)"
| "fneg PInf = NInf"
| "fneg NInf = PInf"
| "fneg NaN = NaN"

fun fadd :: "fl \<Rightarrow> fl \<Rightarrow> fl" where
  "fadd (Fin a) (Fin b) = Fin (a + b)"
| "fadd NaN _ = NaN"
| "fadd _ NaN = NaN"
| "fadd PInf NInf = NaN"
| "fadd NInf PInf = NaN"
| "fadd PInf _ = PInf"
| "fadd _ PInf = PInf"
| "fadd NInf _ = NInf"
| "fadd _ NInf = NInf"

definition fsub :: "fl \<Rightarrow> fl \<Rightarrow> fl" where
  "fsub a b = fadd a (fneg b)"

fun fsgn :: "fl \<Rightarrow> real" where
  "fsgn (Fin a) = sgn a"
| "fsgn PInf = 1"
| "fsgn NInf = - 1"
| "fsgn NaN = 0"

fun fmul :: "fl \<Rightarrow> fl \<Rightarrow> fl" where
  "fmul (Fin a) (Fin b) = Fin (a * b)"
| "fmul NaN _ = NaN"
| "fmul _ NaN = NaN"
| "fmul a b = (if fsgn a * fsgn b = 0 then NaN
               else if 0 < fsgn a * fsgn b then PInf else NInf)"


text \<open>
  \<open>np.exp\<close> on a double: the largest double is just below \<open>2 ^ 1024\<close> and the
  smallest positive one is \<open>2 ^ (- 1074)\<close>, so the result is \<open>inf\<close> from the argument
  \<open>1024 * ln 2\<close> (about 709.78) on and \<open>0.0\<close> up to the argument \<open>- 1075 * ln 2\<close>
  (about -745.13), where the exponential is at most half the smallest positive double.
  numpy warns on the overflow and does not raise.
\<close>

definition exp_overflow :: real where
  "exp_overflow = 1024 * ln 2"

definition exp_underflow :: real where
  "exp_underflow = - 1075 * ln 2"

fun fexp :: "fl \<Rightarrow> fl" where
  "fexp (Fin a) =
     (if a \<le> exp_underflow then Fin 0 else if exp_overflow \<le> a then PInf else Fin (exp a))"
| "fexp PInf = PInf"
| "fexp NInf = Fin 0"
| "fexp NaN = NaN"


fun flt :: "fl \<Rightarrow> fl \<Rightarrow> bool" where
  "flt (Fin a) (Fin b) = (a < b)"
| "flt NaN _ = False"
| "flt _ NaN = False"
| "flt NInf NInf = False"
| "flt NInf _ = True"
| "flt PInf _ = False"
| "flt _ PInf = True"
| "flt _ NInf = False"


definition fge :: "fl \<Rightarrow> fl \<Rightarrow> bool" where
  "fge a b = (flt b a \<or> (a = b \<and> a \<noteq> NaN))"

fun isfinite :: "fl \<Rightarrow> bool" where
  "isfinite (Fin a) = True"
| "isfinite _ = False"

text \<open>
  Python's builtin \<open>min(a, b)\<close> keeps its first argument unless the second compares
  strictly smaller; with a NaN second argument the comparison is false and the first
  argument is returned.
\<close>

definition py_min :: "fl \<Rightarrow> fl \<Rightarrow> fl" where
  "py_min a b = (if flt b a then b else a)"

definition b2i :: "bool \<Rightarrow> int" where
  "b2i b = (if b then 1 else 0)"

subsection \<open>Results that may raise\<close>

fun ebind :: "py_error + 'a \<Rightarrow> ('a \<Rightarrow> py_error + 'b) \<Rightarrow> py_error + 'b" where
  "ebind (Inl e) f = Inl e"
| "ebind (Inr x) f = f x"

lemma ebind_cong [fundef_cong]:
  "m = m' \<Longrightarrow> (\<And>x. m' = Inr x \<Longrightarrow> f x = f' x) \<Longrightarrow> ebind m f = ebind m' f'"
  by (cases m') auto

lemma ebind_eq_Inr: "(ebind m f = Inr y) = (\<exists>x. m = Inr x \<and> f x = Inr y)"
  by (cases m) auto

lemma ebind_eq_Inl: "(ebind m f = Inl e) = (m = Inl e \<or> (\<exists>x. m = Inr x \<and> f x = Inl e))"
  by (cases m) auto

text \<open>A \<open>for\<close> loop over a list of indices whose body may raise: the first error ends it.\<close>

fun efold :: "('a \<Rightarrow> 's \<Rightarrow> py_error + 's) \<Rightarrow> 'a list \<Rightarrow> 's \<Rightarrow> py_error + 's" where
  "efold f [] s = Inr s"
| "efold f (x # xs) s = ebind (f x s) (efold f xs)"

text \<open>Python's true division of two integers.\<close>

definition py_truediv :: "int \<Rightarrow> int \<Rightarrow> py_error + fl" where
  "py_truediv a b = (if b = 0 then Inl ZeroDivisionError else Inr (Fin (real_of_int a / real_of_int b)))"

subsection \<open>One-dimensional numpy arrays\<close>

text \<open>
  Elementwise addition broadcasts an operand of length one and raises \<open>ValueError\<close> on
  any other length mismatch; \<open>np.dot\<close> of two vectors needs equal lengths.
\<close>

definition np_add :: "vec \<Rightarrow> vec \<Rightarrow> py_error + vec" where
  "np_add xs ys =
     (if length xs = length ys then Inr (map2 fadd xs ys)
      else (case (xs, ys) of
              ([x], _) \<Rightarrow> Inr (map (fadd x) ys)
            | (_, [y]) \<Rightarrow> Inr (map (\<lambda>x. fadd x y) xs)
            | _ \<Rightarrow> Inl ValueError))"

definition np_sub :: "vec \<Rightarrow> vec \<Rightarrow> py_error + vec" where
  "np_sub xs ys =
     (if length xs = length ys then Inr (map2 fsub xs ys)
      else (case (xs, ys) of
              ([x], _) \<Rightarrow> Inr (map (fsub x) ys)
            | (_, [y]) \<Rightarrow> Inr (map (\<lambda>x. fsub x y) xs)
            | _ \<Rightarrow> Inl ValueError))"

definition np_smul :: "fl \<Rightarrow> vec \<Rightarrow> vec" where
  "np_smul c xs = map (fmul c) xs"

definition np_neg :: "vec \<Rightarrow> vec" where
  "np_neg xs = map fneg xs"

definition np_sum :: "vec \<Rightarrow> fl" where
  "np_sum xs = foldl fadd (Fin 0) xs"

definition np_square :: "vec \<Rightarrow> vec" where
  "np_square xs = map (\<lambda>x. fmul x x) xs"

definition np_dot :: "vec \<Rightarrow> vec \<Rightarrow> py_error + fl" where
  "np_dot xs ys =
     (if length xs = length ys then Inr (np_sum (map2 fmul xs ys)) else Inl ValueError)"

text \<open>
  The chain is a two-dimensional array of \<open>dim\<close> columns, kept as the list of its rows.
  Reading or writing a row outside the array raises \<open>IndexError\<close>; a row is assigned from
  a vector of length \<open>dim\<close>, or of length one (broadcast), anything else raises.
\<close>

definition np_zeros :: "nat \<Rightarrow> nat \<Rightarrow> vec list" where
  "np_zeros rows dimn = replicate rows (replicate dimn (Fin 0))"

definition np_getrow :: "vec list \<Rightarrow> nat \<Rightarrow> py_error + vec" where
  "np_getrow A i = (if i < length A then Inr (A ! i) else Inl IndexError)"

definition np_setrow :: "vec list \<Rightarrow> nat \<Rightarrow> nat \<Rightarrow> vec \<Rightarrow> py_error + vec list" where
  "np_setrow A dimn i row =
     (if \<not> i < length A then Inl IndexError
      else if length row = dimn then Inr (A[i := row])
      else (case row of [x] \<Rightarrow> Inr (A[i := replicate dimn x]) | _ \<Rightarrow> Inl ValueError))"

text \<open>
  The slice \<open>xs[start::step]\<close> with Python's adjustment of the bounds; a zero step raises
  \<open>ValueError\<close>.
\<close>

definition py_slice_from :: "'a list \<Rightarrow> int \<Rightarrow> int \<Rightarrow> py_error + 'a list" where
  "py_slice_from xs start step =
     (let n = int (length xs) in
      if step = 0 then Inl ValueError
      else if 0 < step then
        (let s = (if start < 0 then max (start + n) 0 else min start n);
             len = (if s < n then (n - s - 1) div step + 1 else 0)
         in Inr (map (\<lambda>k. xs ! nat (s + int k * step)) [0..<nat len]))
      else
        (let s = (if start < 0 then max (start + n) (- 1) else min start (n - 1));
             len = (if - 1 < s then s div (- step) + 1 else 0)
         in Inr (map (\<lambda>k. xs ! nat (s + int k * step)) [0..<nat len])))"

subsection \<open>The random generator\<close>

text \<open>
  The process-wide generator of \<open>np.random\<close> is an oracle: \<open>gauss c k\<close> is the
  \<open>k\<close>-th standard normal variate and \<open>unif c\<close> the standard uniform variate that
  the \<open>c\<close>-th call of the run draws. A caller counts its calls. \<open>normal\<close> raises on a
  negative scale and \<open>uniform\<close> on a range that is not finite, as numpy does.
\<close>

record rng =
  gauss :: "nat \<Rightarrow> nat \<Rightarrow> real"
  unif :: "nat \<Rightarrow> real"

definition np_random_normal :: "rng \<Rightarrow> nat \<Rightarrow> fl \<Rightarrow> fl \<Rightarrow> nat \<Rightarrow> py_error + vec" where
  "np_random_normal g c loc scale d =
     (if flt scale (Fin 0) then Inl ValueError
      else Inr (map (\<lambda>k. fadd loc (fmul scale (Fin (gauss g c k)))) [0..<d]))"

definition np_random_randn :: "rng \<Rightarrow> nat \<Rightarrow> nat \<Rightarrow> vec" where
  "np_random_randn g c d = map (\<lambda>k. Fin (gauss g c k)) [0..<d]"

definition np_random_rand :: "rng \<Rightarrow> nat \<Rightarrow> fl" where
  "np_random_rand g c = Fin (unif g c)"


section \<open>The samplers\<close>

text \<open>
  The fields every sampler object has, then the target of the gradient-based samplers.
  The state of a run is the chain \<open>all_samples\<close>, the counter \<open>accepted\<close> and the number
  of calls made to the random generator.
\<close>

record sampler =
  samples :: "vec list option"
  acceptance_rate :: "fl option"

record chain_state =
  all_samples :: "vec list"
  accepted :: int
  rng_calls :: nat

subsection \<open>Metropolis-Hastings\<close>

record mh = sampler +
  target_log_density :: "vec \<Rightarrow> fl"
  proposal_std :: fl

definition MetropolisHastings_init :: "(vec \<Rightarrow> fl) \<Rightarrow> fl \<Rightarrow> py_error + mh" where
  "MetropolisHastings_init tld std =
     Inr \<lparr>samples = None, acceptance_rate = None, target_log_density = tld, proposal_std = std\<rparr>"

definition MH_propose :: "mh \<Rightarrow> rng \<Rightarrow> nat \<Rightarrow> vec \<Rightarrow> py_error + vec" where
  "MH_propose self g c current_state =
     ebind (np_random_normal g c (Fin 0) (proposal_std self) (length current_state))
       (\<lambda>z. np_add current_state z)"

definition MH_acceptance_probability :: "mh \<Rightarrow> vec \<Rightarrow> vec \<Rightarrow> fl" where
  "MH_acceptance_probability self current_state proposed_state =
     (let log_ratio = fsub (target_log_density self proposed_state)
                           (target_log_density self current_state)
      in py_min (Fin 1) (fexp log_ratio))"

definition MH_iteration :: "mh \<Rightarrow> rng \<Rightarrow> nat \<Rightarrow> nat \<Rightarrow> chain_state \<Rightarrow> py_error + chain_state" where
  "MH_iteration self g dimn i st =
     ebind (np_getrow (all_samples st) (i - 1)) (\<lambda>current.
     ebind (MH_propose self g (rng_calls st) current) (\<lambda>proposed.
       let alpha = MH_acceptance_probability self current proposed in
       if flt (np_random_rand g (rng_calls st + 1)) alpha
       then ebind (np_setrow (all_samples st) dimn i proposed) (\<lambda>A.
              Inr (st\<lparr>all_samples := A, accepted := accepted st + 1,
                       rng_calls := rng_calls st + 2\<rparr>))
       else ebind (np_setrow (all_samples st) dimn i current) (\<lambda>A.
              Inr (st\<lparr>all_samples := A, rng_calls := rng_calls st + 2\<rparr>))))"

text \<open>The run up to the end of the loop: the chain before slicing.\<close>

definition MH_chain :: "mh \<Rightarrow> rng \<Rightarrow> int \<Rightarrow> vec \<Rightarrow> int \<Rightarrow> int \<Rightarrow> py_error + chain_state" where
  "MH_chain self g n_samples initial_state burn_in thin =
     (let dimn = length initial_state;
          total_iterations = burn_in + n_samples * thin
      in if total_iterations < 0 then Inl ValueError
         else ebind (np_setrow (np_zeros (nat total_iterations) dimn) dimn 0 initial_state) (\<lambda>A.
              efold (MH_iteration self g dimn) [1..<nat total_iterations]
                \<lparr>all_samples = A, accepted = 0, rng_calls = 0\<rparr>))"

definition MetropolisHastings_sample ::
  "mh \<Rightarrow> rng \<Rightarrow> int \<Rightarrow> vec \<Rightarrow> int \<Rightarrow> int \<Rightarrow> py_error + (vec list \<times> mh)" where
  "MetropolisHastings_sample self g n_samples initial_state burn_in thin =
     ebind (MH_chain self g n_samples initial_state burn_in thin) (\<lambda>st.
     ebind (py_truediv (accepted st) (burn_in + n_samples * thin)) (\<lambda>rate.
     ebind (py_slice_from (all_samples st) burn_in thin) (\<lambda>kept.
       Inr (kept, self\<lparr>samples := Some kept, acceptance_rate := Some rate\<rparr>))))"

subsection \<open>Hamiltonian Monte Carlo\<close>

record grad_sampler = sampler +
  log_density :: "vec \<Rightarrow> fl"
  grad_log_density :: "vec \<Rightarrow> vec"
  epsilon :: fl

record hmc = grad_sampler +
  L :: int

definition HamiltonianMC_init :: "(vec \<Rightarrow> fl) \<Rightarrow> (vec \<Rightarrow> vec) \<Rightarrow> fl \<Rightarrow> int \<Rightarrow> py_error + hmc" where
  "HamiltonianMC_init ld gld eps l =
     Inr \<lparr>samples = None, acceptance_rate = None, log_density = ld, grad_log_density = gld,
          epsilon = eps, L = l\<rparr>"

text \<open>The body of \<open>for _ in range(self.L - 1)\<close>, run \<open>n\<close> times.\<close>

fun HMC_leapfrog_loop :: "hmc \<Rightarrow> nat \<Rightarrow> vec \<Rightarrow> vec \<Rightarrow> py_error + (vec \<times> vec)" where
  "HMC_leapfrog_loop self 0 q p = Inr (q, p)"
| "HMC_leapfrog_loop self (Suc n) q p =
     ebind (np_add q (np_smul (epsilon self) p)) (\<lambda>q1.
     ebind (np_add p (np_smul (epsilon self) (grad_log_density self q1))) (\<lambda>p1.
       HMC_leapfrog_loop self n q1 p1))"

definition HMC_leapfrog :: "hmc \<Rightarrow> vec \<Rightarrow> vec \<Rightarrow> py_error + (vec \<times> vec)" where
  "HMC_leapfrog self q p =
     ebind (np_add p (np_smul (fmul (Fin 0.5) (epsilon self)) (grad_log_density self q))) (\<lambda>p1.
     ebind (HMC_leapfrog_loop self (nat (L self - 1)) q p1) (\<lambda>(q2, p2).
     ebind (np_add q2 (np_smul (epsilon self) p2)) (\<lambda>q3.
     ebind (np_add p2 (np_smul (fmul (Fin 0.5) (epsilon self)) (grad_log_density self q3))) (\<lambda>p3.
       Inr (q3, np_neg p3)))))"

definition hamiltonian :: "'a grad_sampler_scheme \<Rightarrow> vec \<Rightarrow> vec \<Rightarrow> fl" where
  "hamiltonian self q p =
     (let potential_energy = fneg (log_density self q);
          kinetic_energy = fmul (Fin 0.5) (np_sum (np_square p))
      in fadd potential_energy kinetic_energy)"

definition HMC_iteration :: "hmc \<Rightarrow> rng \<Rightarrow> nat \<Rightarrow> nat \<Rightarrow> chain_state \<Rightarrow> py_error + chain_state" where
  "HMC_iteration self g dimn i st =
     ebind (np_getrow (all_samples st) (i - 1)) (\<lambda>q_current.
       let p_current = np_random_randn g (rng_calls st) dimn;
           H_current = hamiltonian self q_current p_current
       in ebind (HMC_leapfrog self q_current p_current) (\<lambda>(q_proposed, p_proposed).
            let H_proposed = hamiltonian self q_proposed p_proposed;
                log_accept_ratio = fadd (fneg H_proposed) H_current;
                accept_prob = py_min (Fin 1) (fexp log_accept_ratio)
            in if flt (np_random_rand g (rng_calls st + 1)) accept_prob
               then ebind (np_setrow (all_samples st) dimn i q_proposed) (\<lambda>A.
                      Inr (st\<lparr>all_samples := A, accepted := accepted st + 1,
                               rng_calls := rng_calls st + 2\<rparr>))
               else ebind (np_setrow (all_samples st) dimn i q_current) (\<lambda>A.
                      Inr (st\<lparr>all_samples := A, rng_calls := rng_calls st + 2\<rparr>))))"

definition HMC_chain :: "hmc \<Rightarrow> rng \<Rightarrow> int \<Rightarrow> vec \<Rightarrow> int \<Rightarrow> int \<Rightarrow> py_error + chain_state" where
  "HMC_chain self g n_samples initial_state burn_in thin =
     (let dimn = length initial_state;
          total_iterations = burn_in + n_samples * thin
      in if total_iterations < 0 then Inl ValueError
         else ebind (np_setrow (np_zeros (nat total_iterations) dimn) dimn 0 initial_state) (\<lambda>A.
              efold (HMC_iteration self g dimn) [1..<nat total_iterations]
                \<lparr>all_samples = A, accepted = 0, rng_calls = 0\<rparr>))"

definition HamiltonianMC_sample ::
  "hmc \<Rightarrow> rng \<Rightarrow> int \<Rightarrow> vec \<Rightarrow> int \<Rightarrow> int \<Rightarrow> py_error + (vec list \<times> hmc)" where
  "HamiltonianMC_sample self g n_samples initial_state burn_in thin =
     ebind (HMC_chain self g n_samples initial_state burn_in thin) (\<lambda>st.
     ebind (py_truediv (accepted st) (burn_in + n_samples * thin)) (\<lambda>rate.
     ebind (py_slice_from (all_samples st) burn_in thin) (\<lambda>kept.
       Inr (kept, self\<lparr>samples := Some kept, acceptance_rate := Some rate\<rparr>))))"

subsection \<open>The No-U-Turn Sampler\<close>

record nuts = grad_sampler +
  delta :: fl
  epsilon_history :: "fl list"

definition NUTS_init :: "(vec \<Rightarrow> fl) \<Rightarrow> (vec \<Rightarrow> vec) \<Rightarrow> fl \<Rightarrow> fl \<Rightarrow> py_error + nuts" where
  "NUTS_init ld gld eps dl =
     Inr \<lparr>samples = None, acceptance_rate = None, log_density = ld, grad_log_density = gld,
          epsilon = eps, delta = dl, epsilon_history = []\<rparr>"

text \<open>The single leapfrog step of NUTS, with the step size an argument.\<close>

definition NUTS_leapfrog :: "nuts \<Rightarrow> vec \<Rightarrow> vec \<Rightarrow> fl \<Rightarrow> py_error + (vec \<times> vec)" where
  "NUTS_leapfrog self q p eps =
     ebind (np_add p (np_smul (fmul (Fin 0.5) eps) (grad_log_density self q))) (\<lambda>p1.
     ebind (np_add q (np_smul eps p1)) (\<lambda>q1.
     ebind (np_add p1 (np_smul (fmul (Fin 0.5) eps) (grad_log_density self q1))) (\<lambda>p2.
       Inr (q1, p2))))"



text \<open>What \<open>build_tree\<close> returns, in the order of its result tuple.\<close>

record tree =
  q_new :: vec
  p_new :: vec
  q_fwd :: vec
  p_fwd :: vec
  q_bwd :: vec
  p_bwd :: vec
  q_prime :: vec
  p_prime :: vec
  n_prime :: int
  s_prime :: int
  alpha_prime :: fl
  n_alpha_prime :: int

text \<open>
  The merge in the recursive case of \<open>build_tree\<close>, after the second subtree \<open>t2\<close> has
  been built from the endpoint of the first subtree \<open>t\<close> that faces the direction \<open>v\<close>:
  the endpoint assignment of the call, the choice of the proposal (one call to the random
  generator), the acceptance statistics, the no-U-turn test and the count of valid states.
\<close>

definition build_tree_endpoints :: "int \<Rightarrow> tree \<Rightarrow> tree \<Rightarrow> tree" where
  "build_tree_endpoints v t t2 =
     (if v = - 1 then t\<lparr>q_bwd := q_new t2, p_bwd := p_new t2\<rparr>
      else t\<lparr>q_fwd := q_fwd t2, p_fwd := p_fwd t2\<rparr>)"

definition build_tree_choose :: "rng \<Rightarrow> nat \<Rightarrow> tree \<Rightarrow> tree \<Rightarrow> tree" where
  "build_tree_choose g c t1 t2 =
     (if flt (np_random_rand g c)
             (Fin (real_of_int (n_prime t2) / real_of_int (max (n_prime t1 + n_prime t2) 1)))
      then t1\<lparr>q_prime := q_prime t2, p_prime := p_prime t2\<rparr> else t1)"

definition no_u_turn :: "vec \<Rightarrow> vec \<Rightarrow> vec \<Rightarrow> vec \<Rightarrow> py_error + int" where
  "no_u_turn qf qb pb pf =
     ebind (np_sub qf qb) (\<lambda>delta_fwd.
     ebind (np_dot delta_fwd pb) (\<lambda>d_bwd.
     ebind (np_dot delta_fwd pf) (\<lambda>d_fwd.
       Inr (b2i (fge d_bwd (Fin 0)) * b2i (fge d_fwd (Fin 0))))))"

definition build_tree_merge :: "rng \<Rightarrow> int \<Rightarrow> tree \<Rightarrow> tree \<Rightarrow> nat \<Rightarrow> py_error + (tree \<times> nat)" where
  "build_tree_merge g v t t2 c =
     (let t3 = build_tree_choose g c (build_tree_endpoints v t t2) t2 in
      ebind (no_u_turn (q_fwd t3) (q_bwd t3) (p_bwd t3) (p_fwd t3)) (\<lambda>w.
        Inr (t3\<lparr>alpha_prime := fadd (alpha_prime t3) (alpha_prime t2),
                n_alpha_prime := n_alpha_prime t3 + n_alpha_prime t2,
                s_prime := s_prime t2 * w,
                n_prime := n_prime t3 + n_prime t2\<rparr>, c + 1)))"

text \<open>
  The base case of \<open>build_tree\<close>, from the result of its leapfrog step.
\<close>

definition build_tree_leaf :: "nuts \<Rightarrow> fl \<Rightarrow> vec \<Rightarrow> vec \<Rightarrow> vec \<Rightarrow> vec \<Rightarrow> tree" where
  "build_tree_leaf self u q0 p0 qn pn =
     (let H = hamiltonian self qn pn;
          H0 = hamiltonian self q0 p0;
          n1 = b2i (flt u (fexp (fneg H)));
          s1 = b2i (flt u (fexp (fsub (Fin 1000) H)));
          a1 = py_min (Fin 1) (fexp (fadd (fneg H) H0))
      in \<lparr>q_new = qn, p_new = pn, q_fwd = qn, p_fwd = pn, q_bwd = qn, p_bwd = pn,
          q_prime = qn, p_prime = pn, n_prime = n1, s_prime = s1,
          alpha_prime = a1, n_alpha_prime = 1\<rparr>)"

text \<open>
  \<open>build_tree\<close> recurses on the depth \<open>j\<close>. Its last argument and the second component
  of its result count the calls to the random generator.
\<close>

fun build_tree ::
  "nuts \<Rightarrow> rng \<Rightarrow> vec \<Rightarrow> vec \<Rightarrow> fl \<Rightarrow> int \<Rightarrow> nat \<Rightarrow> fl \<Rightarrow> vec \<Rightarrow> vec \<Rightarrow> nat \<Rightarrow> py_error + (tree \<times> nat)" where
  "build_tree self g q p u v 0 eps q0 p0 c =
     ebind (NUTS_leapfrog self q p (fmul (Fin (real_of_int v)) eps)) (\<lambda>(qn, pn).
       Inr (build_tree_leaf self u q0 p0 qn pn, c))"
| "build_tree self g q p u v (Suc j) eps q0 p0 c =
     ebind (build_tree self g q p u v j eps q0 p0 c) (\<lambda>(t, c1).
       if s_prime t = 1 then
         ebind (if v = - 1
                then build_tree self g (q_bwd t) (p_bwd t) u v j eps q0 p0 c1
                else build_tree self g (q_fwd t) (p_fwd t) u v j eps q0 p0 c1)
           (\<lambda>(t2, c2). build_tree_merge g v t t2 c2)
       else Inr (t, c1))"

text \<open>
  The local variables of one outer iteration of \<open>NUTS.sample\<close> that the doubling loop
  updates: the endpoints \<open>q_fwd, p_fwd, q_bwd, p_bwd\<close>, the candidate \<open>q_new\<close>, the
  depth \<open>j\<close>, the counts \<open>n\<close> and \<open>accepted\<close>, the flag \<open>s\<close>, and \<open>alpha, n_alpha\<close>,
  which are unbound until the first doubling has run.
\<close>

record traj =
  tq_fwd :: vec
  tp_fwd :: vec
  tq_bwd :: vec
  tp_bwd :: vec
  tq_new :: vec
  tj :: nat
  tn :: int
  ts :: int
  talpha :: "(fl \<times> int) option"
  taccepted :: int
  tcalls :: nat

definition max_tree_depth :: nat where
  "max_tree_depth = 10"

text \<open>
  The body of \<open>while s == 1 and j < max_tree_depth\<close>, in its four steps: the direction,
  the new subtree with the assignment of its endpoint, the acceptance of its proposal, and
  the update of \<open>n\<close>, \<open>s\<close> and \<open>j\<close>.
\<close>

definition NUTS_direction :: "rng \<Rightarrow> nat \<Rightarrow> int" where
  "NUTS_direction g c = 2 * b2i (flt (np_random_rand g c) (Fin 0.5)) - 1"

definition NUTS_endpoints :: "int \<Rightarrow> traj \<Rightarrow> tree \<Rightarrow> traj" where
  "NUTS_endpoints v st t =
     (if v = - 1 then st\<lparr>tq_bwd := q_new t, tp_bwd := p_new t\<rparr>
      else st\<lparr>tq_fwd := q_fwd t, tp_fwd := p_fwd t\<rparr>)"

definition NUTS_accept :: "rng \<Rightarrow> traj \<Rightarrow> tree \<Rightarrow> nat \<Rightarrow> py_error + traj" where
  "NUTS_accept g st t c =
     (if s_prime t = 1
      then ebind (py_truediv (n_prime t) (tn st)) (\<lambda>r.
             if flt (np_random_rand g c) (py_min (Fin 1) r)
             then Inr (st\<lparr>tq_new := q_prime t, taccepted := taccepted st + 1, tcalls := c + 1\<rparr>)
             else Inr (st\<lparr>tcalls := c + 1\<rparr>))
      else Inr (st\<lparr>tcalls := c\<rparr>))"

definition NUTS_update :: "traj \<Rightarrow> tree \<Rightarrow> py_error + traj" where
  "NUTS_update st t =
     ebind (no_u_turn (tq_fwd st) (tq_bwd st) (tp_bwd st) (tp_fwd st)) (\<lambda>w.
       Inr (st\<lparr>tn := tn st + n_prime t, ts := s_prime t * w, tj := tj st + 1,
               talpha := Some (alpha_prime t, n_alpha_prime t)\<rparr>))"

definition NUTS_doubling :: "nuts \<Rightarrow> rng \<Rightarrow> fl \<Rightarrow> fl \<Rightarrow> vec \<Rightarrow> vec \<Rightarrow> traj \<Rightarrow> py_error + traj" where
  "NUTS_doubling self g u eps q p st =
     (let v = NUTS_direction g (tcalls st) in
      ebind (if v = - 1
             then build_tree self g (tq_bwd st) (tp_bwd st) u v (tj st) eps q p (tcalls st + 1)
             else build_tree self g (tq_fwd st) (tp_fwd st) u v (tj st) eps q p (tcalls st + 1))
        (\<lambda>(t, c).
           ebind (NUTS_accept g (NUTS_endpoints v st t) t c) (\<lambda>st2. NUTS_update st2 t)))"

lemma NUTS_endpoints_depth: "tj (NUTS_endpoints v st t) = tj st"
  by (simp add: NUTS_endpoints_def)

lemma NUTS_accept_depth: "NUTS_accept g st t c = Inr st' \<Longrightarrow> tj st' = tj st"
  by (auto simp: NUTS_accept_def ebind_eq_Inr split: if_splits)

lemma NUTS_update_depth: "NUTS_update st t = Inr st' \<Longrightarrow> tj st' = tj st + 1"
  by (auto simp: NUTS_update_def ebind_eq_Inr)

lemma NUTS_doubling_depth:
  assumes "NUTS_doubling self g u eps q p st = Inr st'"
  shows "tj st' = tj st + 1"
proof -
  from assms obtain t c st2 where
    a: "NUTS_accept g (NUTS_endpoints (NUTS_direction g (tcalls st)) st t) t c = Inr st2"
    and b: "NUTS_update st2 t = Inr st'"
    by (auto simp: NUTS_doubling_def Let_def ebind_eq_Inr)
  from NUTS_accept_depth [OF a] NUTS_update_depth [OF b] show ?thesis
    by (simp add: NUTS_endpoints_depth)
qed

function NUTS_tree_loop :: "nuts \<Rightarrow> rng \<Rightarrow> fl \<Rightarrow> fl \<Rightarrow> vec \<Rightarrow> vec \<Rightarrow> traj \<Rightarrow> py_error + traj" where
  "NUTS_tree_loop self g u eps q p st =
     (if ts st = 1 \<and> tj st < max_tree_depth
      then ebind (NUTS_doubling self g u eps q p st) (NUTS_tree_loop self g u eps q p)
      else Inr st)"
  by pat_completeness auto
termination
  by (relation "measure (\<lambda>(self, g, u, eps, q, p, st). max_tree_depth - tj st)")
     (auto dest: NUTS_doubling_depth)

declare NUTS_tree_loop.simps [simp del]



definition t0 :: real where
  "t0 = 10"



definition NUTS_tree_init :: "vec \<Rightarrow> vec \<Rightarrow> int \<Rightarrow> nat \<Rightarrow> traj" where
  "NUTS_tree_init q p acc c =
     \<lparr>tq_fwd = q, tp_fwd = p, tq_bwd = q, tp_bwd = p, tq_new = q, tj = 0, tn = 1, ts = 1,
      talpha = None, taccepted = acc, tcalls = c\<rparr>"






subsection \<open>Example objects\<close>

definition ex_rng :: rng where
  "ex_rng = \<lparr>gauss = (\<lambda>c k. 1), unif = (\<lambda>c. 0)\<rparr>"

definition ex_mh :: mh where
  "ex_mh = \<lparr>samples = None, acceptance_rate = None, target_log_density = (\<lambda>q. Fin 0),
            proposal_std = Fin 1\<rparr>"

definition ex_hmc :: hmc where
  "ex_hmc = \<lparr>samples = None, acceptance_rate = None, log_density = (\<lambda>q. Fin 0),
             grad_log_density = (\<lambda>q. map (\<lambda>x. Fin 0) q), epsilon = Fin 1, L = 1\<rparr>"

definition ex_nuts :: nuts where
  "ex_nuts = \<lparr>samples = None, acceptance_rate = None, log_density = (\<lambda>q. Fin 0),
              grad_log_density = (\<lambda>q. map (\<lambda>x. Fin 0) q), epsilon = Fin 1, delta = Fin 0.6,
              epsilon_history = []\<rparr>"

definition nan_mh :: mh where
  "nan_mh = \<lparr>samples = None, acceptance_rate = None,
             target_log_density = (\<lambda>q. if q = [Fin 0] then Fin 0 else NaN), proposal_std = Fin 1\<rparr>"

definition nan_hmc :: hmc where
  "nan_hmc = \<lparr>samples = None, acceptance_rate = None,
              log_density = (\<lambda>q. if q = [Fin 0] then Fin 0 else NaN),
              grad_log_density = (\<lambda>q. map (\<lambda>x. Fin 0) q), epsilon = Fin 1, L = 1\<rparr>"

definition inf_mh :: mh where
  "inf_mh = \<lparr>samples = None, acceptance_rate = None,
             target_log_density = (\<lambda>q. if q = [Fin 0] then Fin 0 else NInf), proposal_std = Fin 1\<rparr>"

definition inf_hmc :: hmc where
  "inf_hmc = \<lparr>samples = None, acceptance_rate = None,
              log_density = (\<lambda>q. if q = [Fin 0] then Fin 0 else NInf),
              grad_log_density = (\<lambda>q. map (\<lambda>x. Fin 0) q), epsilon = Fin 1, L = 1\<rparr>"

text \<open>
  A target whose log-density is \<open>-800\<close> everywhere (the energies are about 800), a
  Laplace target in one summary coordinate, \<open>log_density(q) = -2 |sum(q)|\<close> with its
  gradient and the value \<open>-inf\<close> where the sum is not finite, and an HMC sampler for the
  standard normal target.
\<close>

definition low_nuts :: nuts where
  "low_nuts = \<lparr>samples = None, acceptance_rate = None, log_density = (\<lambda>q. Fin (- 800)),
               grad_log_density = (\<lambda>q. map (\<lambda>x. Fin 0) q), epsilon = Fin 1, delta = Fin 0.6,
               epsilon_history = []\<rparr>"


definition ex_hmc2 :: hmc where
  "ex_hmc2 = \<lparr>samples = None, acceptance_rate = None,
              log_density = (\<lambda>q. fmul (Fin (- 0.5)) (np_sum (np_square q))),
              grad_log_density = (\<lambda>q. np_neg q), epsilon = Fin 0.5, L = 3\<rparr>"

section \<open>Properties\<close>

subsection \<open>Loops and arrays\<close>



lemma efold_append: "efold f (xs @ ys) s = ebind (efold f xs s) (efold f ys)"
proof (induction xs arbitrary: s)
  case (Cons a xs)
  then show ?case by (cases "f a s") simp_all
qed simp

lemma efold_upt_invariant:
  assumes step: "\<And>i s. a < i \<Longrightarrow> i < b \<Longrightarrow> P (i - 1) s \<Longrightarrow> \<exists>s'. f i s = Inr s' \<and> P i s'"
    and init: "P a s0" and ab: "a < b"
  shows "\<exists>s'. efold f [Suc a..<b] s0 = Inr s' \<and> P (b - 1) s'"
  using ab step
proof (induction b)
  case 0
  then show ?case by simp
next
  case (Suc b)
  show ?case
  proof (cases "a < b")
    case False
    with Suc.prems have "b = a" by simp
    with init show ?thesis by simp
  next
    case True
    have "\<exists>s'. efold f [Suc a..<b] s0 = Inr s' \<and> P (b - 1) s'"
      by (rule Suc.IH [OF True]) (use Suc.prems in auto)
    then obtain s1 where s1: "efold f [Suc a..<b] s0 = Inr s1" "P (b - 1) s1" by blast
    from Suc.prems(2) [of b s1] True s1 obtain s2 where s2: "f b s1 = Inr s2" "P b s2" by auto
    from True have "[Suc a..<Suc b] = [Suc a..<b] @ [b]" by simp
    with s1 s2 show ?thesis by (simp add: efold_append)
  qed
qed

lemma np_add_same: "length xs = length ys \<Longrightarrow> np_add xs ys = Inr (map2 fadd xs ys)"
  by (simp add: np_add_def)

lemma np_setrow_ok: "i < length A \<Longrightarrow> length row = d \<Longrightarrow> np_setrow A d i row = Inr (A[i := row])"
  by (simp add: np_setrow_def)

lemma np_getrow_ok: "i < length A \<Longrightarrow> np_getrow A i = Inr (A ! i)"
  by (simp add: np_getrow_def)

lemma MH_propose_ok:
  assumes "\<not> flt (proposal_std self) (Fin 0)"
  shows "\<exists>z. MH_propose self g c x = Inr z \<and> length z = length x"
  using assms by (simp add: MH_propose_def np_random_normal_def np_add_same)

text \<open>
  The invariants of the sampling loops. \<open>rows_ok\<close>: the chain has \<open>T\<close> rows of
  \<open>d\<close> columns and starts with the initial state. \<open>MH_row\<close>: row \<open>i\<close> is what
  iteration \<open>i\<close> computes from row \<open>i - 1\<close>, the proposal when the uniform draw is
  below the acceptance probability and a copy of row \<open>i - 1\<close> otherwise (iteration
  \<open>i\<close> makes the calls \<open>2 * (i - 1)\<close> and \<open>2 * (i - 1) + 1\<close> to the generator).
\<close>

definition rows_ok :: "nat \<Rightarrow> nat \<Rightarrow> vec \<Rightarrow> vec list \<Rightarrow> bool" where
  "rows_ok T d x0 A = (length A = T \<and> (\<forall>i<T. length (A ! i) = d) \<and> A ! 0 = x0)"

definition MH_row :: "mh \<Rightarrow> rng \<Rightarrow> vec list \<Rightarrow> nat \<Rightarrow> bool" where
  "MH_row self g A i =
     (\<exists>proposed. MH_propose self g (2 * (i - 1)) (A ! (i - 1)) = Inr proposed \<and>
        A ! i = (if flt (np_random_rand g (2 * (i - 1) + 1))
                        (MH_acceptance_probability self (A ! (i - 1)) proposed)
                 then proposed else A ! (i - 1)))"

definition MH_inv :: "mh \<Rightarrow> rng \<Rightarrow> nat \<Rightarrow> nat \<Rightarrow> vec \<Rightarrow> nat \<Rightarrow> chain_state \<Rightarrow> bool" where
  "MH_inv self g T d x0 k st =
     (rows_ok T d x0 (all_samples st) \<and> rng_calls st = 2 * k \<and>
      0 \<le> accepted st \<and> accepted st \<le> int k \<and>
      (\<forall>i. 1 \<le> i \<and> i \<le> k \<longrightarrow> MH_row self g (all_samples st) i))"

lemma rows_ok_update:
  "rows_ok T d x0 A \<Longrightarrow> 0 < i \<Longrightarrow> i < T \<Longrightarrow> length r = d \<Longrightarrow> rows_ok T d x0 (A[i := r])"
  by (auto simp: rows_ok_def nth_list_update)

lemma MH_row_update:
  assumes "MH_row self g A j" and "j < i"
  shows "MH_row self g (A[i := r]) j"
proof -
  have a: "(A[i := r]) ! j = A ! j" "(A[i := r]) ! (j - 1) = A ! (j - 1)"
    using assms(2) by simp_all
  show ?thesis using assms(1) unfolding MH_row_def a .
qed

lemma MH_iteration_step:
  assumes std: "\<not> flt (proposal_std self) (Fin 0)"
    and i: "0 < i" "i < T" and inv: "MH_inv self g T d x0 (i - 1) st"
  shows "\<exists>st'. MH_iteration self g d i st = Inr st' \<and> MH_inv self g T d x0 i st'"
proof -
  let ?A = "all_samples st"
  let ?cur = "?A ! (i - 1)"
  from inv have ro: "rows_ok T d x0 ?A" and c: "rng_calls st = 2 * (i - 1)"
    and acc: "0 \<le> accepted st" "accepted st \<le> int (i - 1)"
    and rows: "\<And>j. 1 \<le> j \<Longrightarrow> j \<le> i - 1 \<Longrightarrow> MH_row self g ?A j"
    by (auto simp: MH_inv_def)
  from ro i have len: "length ?A = T" and lcur: "length ?cur = d"
    by (auto simp: rows_ok_def)
  from MH_propose_ok [OF std, of g "rng_calls st" ?cur] obtain z where
    z: "MH_propose self g (rng_calls st) ?cur = Inr z" "length z = d"
    using lcur by auto
  let ?acc = "flt (np_random_rand g (rng_calls st + 1)) (MH_acceptance_probability self ?cur z)"
  let ?r = "if ?acc then z else ?cur"
  let ?st' = "st\<lparr>all_samples := ?A[i := ?r], accepted := accepted st + (if ?acc then 1 else 0),
                  rng_calls := rng_calls st + 2\<rparr>"
  have run: "MH_iteration self g d i st = Inr ?st'"
    using i len lcur z by (simp add: MH_iteration_def np_getrow_ok np_setrow_ok Let_def)
  have lr: "length ?r = d" using z lcur by simp
  have rowi: "MH_row self g (?A[i := ?r]) i"
    unfolding MH_row_def using z i len c by (intro exI [of _ z]) simp
  have "MH_row self g (?A[i := ?r]) j" if "1 \<le> j" "j \<le> i" for j
  proof (cases "j = i")
    case True
    with rowi show ?thesis by simp
  next
    case False
    with that have "j \<le> i - 1" "j < i" by auto
    with rows [of j] that show ?thesis by (simp add: MH_row_update)
  qed
  moreover have "rows_ok T d x0 (?A[i := ?r])"
    by (rule rows_ok_update [OF ro i lr])
  ultimately have "MH_inv self g T d x0 i ?st'"
    using c acc i by (auto simp: MH_inv_def)
  with run show ?thesis by blast
qed


lemma MH_chain_run:
  assumes std: "\<not> flt (proposal_std self) (Fin 0)" and T: "1 \<le> burn_in + n_samples * thin"
  shows "\<exists>st. MH_chain self g n_samples x0 burn_in thin = Inr st \<and>
           MH_inv self g (nat (burn_in + n_samples * thin)) (length x0) x0
             (nat (burn_in + n_samples * thin) - 1) st"
proof -
  let ?T = "nat (burn_in + n_samples * thin)"
  let ?d = "length x0"
  let ?A = "(np_zeros ?T ?d)[0 := x0]"
  let ?s0 = "\<lparr>all_samples = ?A, accepted = 0, rng_calls = 0\<rparr>"
  from T have T0: "0 < ?T" by simp
  have inv0: "MH_inv self g ?T ?d x0 0 ?s0"
    using T0 by (auto simp: MH_inv_def rows_ok_def np_zeros_def nth_list_update)
  have "\<exists>s'. efold (MH_iteration self g ?d) [Suc 0..<?T] ?s0 = Inr s' \<and> MH_inv self g ?T ?d x0 (?T - 1) s'"
    by (rule efold_upt_invariant [where P = "MH_inv self g ?T ?d x0", OF _ inv0 T0])
       (rule MH_iteration_step [OF std])
  moreover have "MH_chain self g n_samples x0 burn_in thin = efold (MH_iteration self g ?d) [Suc 0..<?T] ?s0"
    using T T0 by (simp add: MH_chain_def Let_def np_setrow_ok np_zeros_def)
  ultimately show ?thesis by simp
qed

text \<open>The same for the HMC chain.\<close>

lemma np_smul_length [simp]: "length (np_smul c xs) = length xs"
  by (simp add: np_smul_def)

lemma np_neg_length [simp]: "length (np_neg xs) = length xs"
  by (simp add: np_neg_def)

lemma np_add_length: "np_add xs ys = Inr zs \<Longrightarrow> length xs = length ys \<Longrightarrow> length zs = length xs"
  by (auto simp: np_add_def)

lemma HMC_leapfrog_loop_ok:
  assumes "\<forall>x. length (grad_log_density self x) = length x" and "length p = length q"
  shows "\<exists>q' p'. HMC_leapfrog_loop self n q p = Inr (q', p') \<and> length q' = length q \<and> length p' = length q"
  using assms(2)
proof (induction n arbitrary: q p)
  case 0
  then show ?case by simp
next
  case (Suc n)
  let ?q1 = "map2 fadd q (np_smul (epsilon self) p)"
  let ?p1 = "map2 fadd p (np_smul (epsilon self) (grad_log_density self ?q1))"
  have l: "length ?q1 = length q" "length ?p1 = length q"
    using Suc.prems assms(1) by simp_all
  from Suc.IH [of ?p1 ?q1] l obtain q' p' where
    "HMC_leapfrog_loop self n ?q1 ?p1 = Inr (q', p')" "length q' = length q" "length p' = length q"
    by auto
  then show ?case using Suc.prems assms(1) by (simp add: np_add_same)
qed

lemma HMC_leapfrog_ok:
  assumes g: "\<forall>x. length (grad_log_density self x) = length x" and "length p = length q"
  shows "\<exists>q' p'. HMC_leapfrog self q p = Inr (q', p') \<and> length q' = length q \<and> length p' = length q"
proof -
  let ?p1 = "map2 fadd p (np_smul (fmul (Fin 0.5) (epsilon self)) (grad_log_density self q))"
  have l1: "length ?p1 = length q" using assms by simp
  from HMC_leapfrog_loop_ok [OF g l1, of "nat (L self - 1)"] obtain q2 p2 where
    lp: "HMC_leapfrog_loop self (nat (L self - 1)) q ?p1 = Inr (q2, p2)"
    and l2: "length q2 = length q" "length p2 = length q" by blast
  show ?thesis
    unfolding HMC_leapfrog_def using assms lp l2 by (simp add: np_add_same)
qed

definition HMC_row :: "hmc \<Rightarrow> rng \<Rightarrow> nat \<Rightarrow> vec list \<Rightarrow> nat \<Rightarrow> bool" where
  "HMC_row self g d A i =
     (\<exists>q_proposed p_proposed.
        HMC_leapfrog self (A ! (i - 1)) (np_random_randn g (2 * (i - 1)) d) = Inr (q_proposed, p_proposed) \<and>
        A ! i = (if flt (np_random_rand g (2 * (i - 1) + 1))
                        (py_min (Fin 1) (fexp (fadd (fneg (hamiltonian self q_proposed p_proposed))
                           (hamiltonian self (A ! (i - 1)) (np_random_randn g (2 * (i - 1)) d)))))
                 then q_proposed else A ! (i - 1)))"

definition HMC_inv :: "hmc \<Rightarrow> rng \<Rightarrow> nat \<Rightarrow> nat \<Rightarrow> vec \<Rightarrow> nat \<Rightarrow> chain_state \<Rightarrow> bool" where
  "HMC_inv self g T d x0 k st =
     (rows_ok T d x0 (all_samples st) \<and> rng_calls st = 2 * k \<and>
      0 \<le> accepted st \<and> accepted st \<le> int k \<and>
      (\<forall>i. 1 \<le> i \<and> i \<le> k \<longrightarrow> HMC_row self g d (all_samples st) i))"

lemma HMC_row_update:
  assumes "HMC_row self g d A j" and "j < i"
  shows "HMC_row self g d (A[i := r]) j"
proof -
  have a: "(A[i := r]) ! j = A ! j" "(A[i := r]) ! (j - 1) = A ! (j - 1)"
    using assms(2) by simp_all
  show ?thesis using assms(1) unfolding HMC_row_def a .
qed

lemma np_random_randn_length [simp]: "length (np_random_randn g c d) = d"
  by (simp add: np_random_randn_def)

lemma HMC_iteration_step:
  assumes gl: "\<forall>x. length (grad_log_density self x) = length x"
    and i: "0 < i" "i < T" and inv: "HMC_inv self g T d x0 (i - 1) st"
  shows "\<exists>st'. HMC_iteration self g d i st = Inr st' \<and> HMC_inv self g T d x0 i st'"
proof -
  let ?A = "all_samples st"
  let ?cur = "?A ! (i - 1)"
  let ?p = "np_random_randn g (rng_calls st) d"
  from inv have ro: "rows_ok T d x0 ?A" and c: "rng_calls st = 2 * (i - 1)"
    and acc: "0 \<le> accepted st" "accepted st \<le> int (i - 1)"
    and rows: "\<And>j. 1 \<le> j \<Longrightarrow> j \<le> i - 1 \<Longrightarrow> HMC_row self g d ?A j"
    by (auto simp: HMC_inv_def)
  from ro i have len: "length ?A = T" and lcur: "length ?cur = d"
    by (auto simp: rows_ok_def)
  from HMC_leapfrog_ok [OF gl, of ?p ?cur] lcur obtain q' p' where
    z: "HMC_leapfrog self ?cur ?p = Inr (q', p')" "length q' = d"
    by auto
  let ?acc = "flt (np_random_rand g (rng_calls st + 1))
                (py_min (Fin 1) (fexp (fadd (fneg (hamiltonian self q' p')) (hamiltonian self ?cur ?p))))"
  let ?r = "if ?acc then q' else ?cur"
  let ?st' = "st\<lparr>all_samples := ?A[i := ?r], accepted := accepted st + (if ?acc then 1 else 0),
                  rng_calls := rng_calls st + 2\<rparr>"
  have run: "HMC_iteration self g d i st = Inr ?st'"
    using i len lcur z by (simp add: HMC_iteration_def np_getrow_ok np_setrow_ok Let_def)
  have lr: "length ?r = d" using z lcur by simp
  have rowi: "HMC_row self g d (?A[i := ?r]) i"
    unfolding HMC_row_def using z i len c by (intro exI [of _ q'] exI [of _ p']) simp
  have "HMC_row self g d (?A[i := ?r]) j" if "1 \<le> j" "j \<le> i" for j
  proof (cases "j = i")
    case True
    with rowi show ?thesis by simp
  next
    case False
    with that have "j \<le> i - 1" "j < i" by auto
    with rows [of j] that show ?thesis by (simp add: HMC_row_update)
  qed
  moreover have "rows_ok T d x0 (?A[i := ?r])"
    by (rule rows_ok_update [OF ro i lr])
  ultimately have "HMC_inv self g T d x0 i ?st'"
    using c acc i by (auto simp: HMC_inv_def)
  with run show ?thesis by blast
qed

lemma HMC_chain_run:
  assumes gl: "\<forall>x. length (grad_log_density self x) = length x" and T: "1 \<le> burn_in + n_samples * thin"
  shows "\<exists>st. HMC_chain self g n_samples x0 burn_in thin = Inr st \<and>
           HMC_inv self g (nat (burn_in + n_samples * thin)) (length x0) x0
             (nat (burn_in + n_samples * thin) - 1) st"
proof -
  let ?T = "nat (burn_in + n_samples * thin)"
  let ?d = "length x0"
  let ?A = "(np_zeros ?T ?d)[0 := x0]"
  let ?s0 = "\<lparr>all_samples = ?A, accepted = 0, rng_calls = 0\<rparr>"
  from T have T0: "0 < ?T" by simp
  have inv0: "HMC_inv self g ?T ?d x0 0 ?s0"
    using T0 by (auto simp: HMC_inv_def rows_ok_def np_zeros_def nth_list_update)
  have "\<exists>s'. efold (HMC_iteration self g ?d) [Suc 0..<?T] ?s0 = Inr s' \<and> HMC_inv self g ?T ?d x0 (?T - 1) s'"
    by (rule efold_upt_invariant [where P = "HMC_inv self g ?T ?d x0", OF _ inv0 T0])
       (rule HMC_iteration_step [OF gl])
  moreover have "HMC_chain self g n_samples x0 burn_in thin = efold (HMC_iteration self g ?d) [Suc 0..<?T] ?s0"
    using T T0 by (simp add: HMC_chain_def Let_def np_setrow_ok np_zeros_def)
  ultimately show ?thesis by simp
qed




lemma slice_count:
  fixes N T :: int
  assumes "1 \<le> N" "1 \<le> T"
  shows "(N * T - 1) div T + 1 = N"
proof -
  have "(N * T - 1) div T = N - 1"
    by (rule int_div_pos_eq [where r = "T - 1"]) (use assms in \<open>simp_all add: algebra_simps\<close>)
  then show ?thesis by simp
qed

lemma py_slice_from_rows:
  assumes B: "0 \<le> B" and T: "1 \<le> T" and N: "0 \<le> N" and len: "length xs = nat (B + N * T)"
  shows "py_slice_from xs B T = Inr (map (\<lambda>k. xs ! nat (B + int k * T)) [0..<nat N])"
proof -
  have NT: "0 \<le> N * T" using N T by simp
  have n: "int (length xs) = B + N * T" using len B NT by simp
  have s: "min B (B + N * T) = B" using NT by simp
  show ?thesis
  proof (cases "N = 0")
    case True
    then show ?thesis using B T n by (simp add: py_slice_from_def Let_def)
  next
    case False
    with N have N1: "1 \<le> N" by simp
    then have "0 < N * T" using T by (simp add: zero_less_mult_iff)
    moreover have "(N * T - 1) div T + 1 = N" by (rule slice_count [OF N1 T])
    ultimately show ?thesis using B T n s by (simp add: py_slice_from_def Let_def)
  qed
qed

lemma slice_index_bound:
  fixes B N T :: int
  assumes "0 \<le> B" "1 \<le> T" "int k < N"
  shows "nat (B + int k * T) < nat (B + N * T)"
proof -
  have "int k + 1 \<le> N" using assms by simp
  then have "(int k + 1) * T \<le> N * T" using assms by (simp add: mult_right_mono)
  then have "B + int k * T < B + N * T" using assms by (simp add: algebra_simps)
  moreover have "0 \<le> B + int k * T" using assms by simp
  ultimately show ?thesis by (simp add: nat_less_eq_zless)
qed

lemma py_slice_from_shape:
  assumes B: "0 \<le> B" and T: "1 \<le> T" and N: "0 \<le> N" and len: "length xs = nat (B + N * T)"
    and rows: "\<forall>i<length xs. length (xs ! i) = d"
  shows "py_slice_from xs B T = Inr (map (\<lambda>k. xs ! nat (B + int k * T)) [0..<nat N]) \<and>
         (\<forall>r\<in>set (map (\<lambda>k. xs ! nat (B + int k * T)) [0..<nat N]). length r = d)"
proof -
  let ?kept = "map (\<lambda>k. xs ! nat (B + int k * T)) [0..<nat N]"
  have "length (xs ! nat (B + int k * T)) = d" if "k < nat N" for k
  proof -
    from that have "int k < N" by simp
    from slice_index_bound [OF B T this] rows len show ?thesis by simp
  qed
  then have "\<forall>r\<in>set ?kept. length r = d" by auto
  then show ?thesis
    using py_slice_from_rows [OF B T N len] by simp
qed

lemma py_truediv_rate:
  assumes "a \<le> T - 1" "1 \<le> T"
  shows "\<exists>r. py_truediv a T = Inr (Fin r) \<and> r \<le> (real_of_int T - 1) / real_of_int T \<and> r < 1"
proof -
  from assms have pos: "0 < real_of_int T" and a: "real_of_int a \<le> real_of_int T - 1"
    by linarith+
  then have "real_of_int a / real_of_int T \<le> (real_of_int T - 1) / real_of_int T"
    by (simp add: divide_right_mono)
  moreover have "real_of_int a / real_of_int T < 1" using a pos by simp
  ultimately show ?thesis using assms by (simp add: py_truediv_def)
qed

lemma chain_finish:
  assumes ro: "rows_ok (nat (B + N * T)) d x0 A"
    and B: "0 \<le> B" and T: "1 \<le> T" and N: "0 \<le> N" and tot: "1 \<le> B + N * T"
    and acc: "a \<le> int (nat (B + N * T) - 1)"
  shows "\<exists>r kept. py_truediv a (B + N * T) = Inr (Fin r) \<and>
           r \<le> (real_of_int (B + N * T) - 1) / real_of_int (B + N * T) \<and> r < 1 \<and>
           py_slice_from A B T = Inr kept \<and>
           kept = map (\<lambda>k. A ! nat (B + int k * T)) [0..<nat N] \<and>
           length kept = nat N \<and> (\<forall>r\<in>set kept. length r = d)"
proof -
  from ro have len: "length A = nat (B + N * T)" and rows: "\<forall>i<length A. length (A ! i) = d"
    by (auto simp: rows_ok_def)
  from acc tot have "a \<le> (B + N * T) - 1" by simp
  from py_truediv_rate [OF this tot] obtain r where
    r: "py_truediv a (B + N * T) = Inr (Fin r)"
       "r \<le> (real_of_int (B + N * T) - 1) / real_of_int (B + N * T)" "r < 1" by blast
  let ?kept = "map (\<lambda>k. A ! nat (B + int k * T)) [0..<nat N]"
  from py_slice_from_shape [OF B T N len rows]
  have k: "py_slice_from A B T = Inr ?kept" "\<forall>r\<in>set ?kept. length r = d" by blast+
  have "length ?kept = nat N" by simp
  with r k show ?thesis by blast
qed

lemma MH_sample_run:
  assumes std: "\<not> flt (proposal_std self) (Fin 0)"
    and N: "0 \<le> n_samples" and B: "0 \<le> burn_in" and T: "1 \<le> thin"
    and tot: "1 \<le> burn_in + n_samples * thin"
  shows "\<exists>st kept r.
           MH_chain self g n_samples x0 burn_in thin = Inr st \<and>
           MH_inv self g (nat (burn_in + n_samples * thin)) (length x0) x0
             (nat (burn_in + n_samples * thin) - 1) st \<and>
           py_slice_from (all_samples st) burn_in thin = Inr kept \<and>
           kept = map (\<lambda>k. all_samples st ! nat (burn_in + int k * thin)) [0..<nat n_samples] \<and>
           MetropolisHastings_sample self g n_samples x0 burn_in thin =
             Inr (kept, self\<lparr>samples := Some kept, acceptance_rate := Some (Fin r)\<rparr>) \<and>
           length kept = nat n_samples \<and> (\<forall>x\<in>set kept. length x = length x0) \<and>
           r \<le> (real_of_int (burn_in + n_samples * thin) - 1) / real_of_int (burn_in + n_samples * thin) \<and>
           r < 1"
proof -
  from MH_chain_run [OF std tot, of g x0] obtain st where
    st: "MH_chain self g n_samples x0 burn_in thin = Inr st"
    and inv: "MH_inv self g (nat (burn_in + n_samples * thin)) (length x0) x0
                (nat (burn_in + n_samples * thin) - 1) st" by blast
  from inv have ro: "rows_ok (nat (burn_in + n_samples * thin)) (length x0) x0 (all_samples st)"
    and acc: "accepted st \<le> int (nat (burn_in + n_samples * thin) - 1)"
    by (auto simp: MH_inv_def)
  from chain_finish [OF ro B T N tot acc] obtain r kept where
    f: "py_truediv (accepted st) (burn_in + n_samples * thin) = Inr (Fin r)"
       "r \<le> (real_of_int (burn_in + n_samples * thin) - 1) / real_of_int (burn_in + n_samples * thin)"
       "r < 1" "py_slice_from (all_samples st) burn_in thin = Inr kept"
       "kept = map (\<lambda>k. all_samples st ! nat (burn_in + int k * thin)) [0..<nat n_samples]"
       "length kept = nat n_samples"
       "\<forall>x\<in>set kept. length x = length x0" by blast
  have "MetropolisHastings_sample self g n_samples x0 burn_in thin =
          Inr (kept, self\<lparr>samples := Some kept, acceptance_rate := Some (Fin r)\<rparr>)"
    using st f(1) f(4) by (simp add: MetropolisHastings_sample_def)
  with st inv f show ?thesis by blast
qed

lemma HMC_sample_run:
  assumes gl: "\<forall>x. length (grad_log_density self x) = length x"
    and N: "0 \<le> n_samples" and B: "0 \<le> burn_in" and T: "1 \<le> thin"
    and tot: "1 \<le> burn_in + n_samples * thin"
  shows "\<exists>st kept r.
           HMC_chain self g n_samples x0 burn_in thin = Inr st \<and>
           HMC_inv self g (nat (burn_in + n_samples * thin)) (length x0) x0
             (nat (burn_in + n_samples * thin) - 1) st \<and>
           py_slice_from (all_samples st) burn_in thin = Inr kept \<and>
           kept = map (\<lambda>k. all_samples st ! nat (burn_in + int k * thin)) [0..<nat n_samples] \<and>
           HamiltonianMC_sample self g n_samples x0 burn_in thin =
             Inr (kept, self\<lparr>samples := Some kept, acceptance_rate := Some (Fin r)\<rparr>) \<and>
           length kept = nat n_samples \<and> (\<forall>x\<in>set kept. length x = length x0) \<and>
           r \<le> (real_of_int (burn_in + n_samples * thin) - 1) / real_of_int (burn_in + n_samples * thin) \<and>
           r < 1"
proof -
  from HMC_chain_run [OF gl tot, of g x0] obtain st where
    st: "HMC_chain self g n_samples x0 burn_in thin = Inr st"
    and inv: "HMC_inv self g (nat (burn_in + n_samples * thin)) (length x0) x0
                (nat (burn_in + n_samples * thin) - 1) st" by blast
  from inv have ro: "rows_ok (nat (burn_in + n_samples * thin)) (length x0) x0 (all_samples st)"
    and acc: "accepted st \<le> int (nat (burn_in + n_samples * thin) - 1)"
    by (auto simp: HMC_inv_def)
  from chain_finish [OF ro B T N tot acc] obtain r kept where
    f: "py_truediv (accepted st) (burn_in + n_samples * thin) = Inr (Fin r)"
       "r \<le> (real_of_int (burn_in + n_samples * thin) - 1) / real_of_int (burn_in + n_samples * thin)"
       "r < 1" "py_slice_from (all_samples st) burn_in thin = Inr kept"
       "kept = map (\<lambda>k. all_samples st ! nat (burn_in + int k * thin)) [0..<nat n_samples]"
       "length kept = nat n_samples"
       "\<forall>x\<in>set kept. length x = length x0" by blast
  have "HamiltonianMC_sample self g n_samples x0 burn_in thin =
          Inr (kept, self\<lparr>samples := Some kept, acceptance_rate := Some (Fin r)\<rparr>)"
    using st f(1) f(4) by (simp add: HamiltonianMC_sample_def)
  with st inv f show ?thesis by blast
qed

lemma MH_inv_final:
  assumes "MH_inv self g T d x0 (T - 1) st"
  shows "length (all_samples st) = T \<and> rng_calls st = 2 * (T - 1) \<and> all_samples st ! 0 = x0 \<and>
         (\<forall>i. 1 \<le> i \<and> i < T \<longrightarrow> MH_row self g (all_samples st) i)"
  using assms by (auto simp: MH_inv_def rows_ok_def)

lemma HMC_inv_final:
  assumes "HMC_inv self g T d x0 (T - 1) st"
  shows "length (all_samples st) = T \<and> rng_calls st = 2 * (T - 1) \<and> all_samples st ! 0 = x0 \<and>
         (\<forall>i. 1 \<le> i \<and> i < T \<longrightarrow> HMC_row self g d (all_samples st) i)"
  using assms by (auto simp: HMC_inv_def rows_ok_def)

subsection \<open>Claims on the shape of the result and on the acceptance rate\<close>

text \<open>
  C7. For \<open>n_samples \<ge> 0\<close>, \<open>burn_in \<ge> 0\<close>, \<open>thin \<ge> 1\<close> and a total iteration count
  \<open>T = burn_in + n_samples * thin \<ge> 1\<close>, \<open>MetropolisHastings.sample\<close> (with a proposal
  scale that is not negative) and \<open>HamiltonianMC.sample\<close> (with a gradient of the dimension
  of its argument) return, and they have run the loop body \<open>T - 1\<close> times: the internal chain
  has \<open>T\<close> rows, row 0 is the initial state, every row \<open>1 \<le> i < T\<close> is what iteration \<open>i\<close>
  computes from row \<open>i - 1\<close> (\<open>MH_row\<close>, \<open>HMC_row\<close>: the proposal when the uniform draw is
  below the acceptance probability, a copy of row \<open>i - 1\<close> otherwise), and the generator has
  been called \<open>2 * (T - 1)\<close> times, twice in each iteration. The result is the slice
  \<open>[burn_in::thin]\<close> of that chain, that is the rows \<open>burn_in + k * thin\<close> for
  \<open>k < n_samples\<close>; it is stored in \<open>self.samples\<close> and has exactly \<open>n_samples\<close> rows,
  each of the dimension of the initial state.
\<close>

theorem sample_returns_n_samples_rows:
  assumes "0 \<le> n_samples" and "0 \<le> burn_in" and "1 \<le> thin"
    and "1 \<le> burn_in + n_samples * thin"
    and "\<not> flt (proposal_std mhs) (Fin 0)"
    and "\<forall>x. length (grad_log_density hs x) = length x"
  shows "(\<exists>st kept self'.
            MH_chain mhs g n_samples x0 burn_in thin = Inr st \<and>
            length (all_samples st) = nat (burn_in + n_samples * thin) \<and>
            rng_calls st = 2 * (nat (burn_in + n_samples * thin) - 1) \<and>
            all_samples st ! 0 = x0 \<and>
            (\<forall>i. 1 \<le> i \<and> i < nat (burn_in + n_samples * thin) \<longrightarrow>
               MH_row mhs g (all_samples st) i) \<and>
            py_slice_from (all_samples st) burn_in thin = Inr kept \<and>
            kept = map (\<lambda>k. all_samples st ! nat (burn_in + int k * thin)) [0..<nat n_samples] \<and>
            MetropolisHastings_sample mhs g n_samples x0 burn_in thin = Inr (kept, self') \<and>
            samples self' = Some kept \<and>
            length kept = nat n_samples \<and> (\<forall>x\<in>set kept. length x = length x0)) \<and>
         (\<exists>st kept self'.
            HMC_chain hs g n_samples x0 burn_in thin = Inr st \<and>
            length (all_samples st) = nat (burn_in + n_samples * thin) \<and>
            rng_calls st = 2 * (nat (burn_in + n_samples * thin) - 1) \<and>
            all_samples st ! 0 = x0 \<and>
            (\<forall>i. 1 \<le> i \<and> i < nat (burn_in + n_samples * thin) \<longrightarrow>
               HMC_row hs g (length x0) (all_samples st) i) \<and>
            py_slice_from (all_samples st) burn_in thin = Inr kept \<and>
            kept = map (\<lambda>k. all_samples st ! nat (burn_in + int k * thin)) [0..<nat n_samples] \<and>
            HamiltonianMC_sample hs g n_samples x0 burn_in thin = Inr (kept, self') \<and>
            samples self' = Some kept \<and>
            length kept = nat n_samples \<and> (\<forall>x\<in>set kept. length x = length x0))"
proof
  from MH_sample_run [OF assms(5) assms(1) assms(2) assms(3) assms(4), of g x0]
  obtain st kept r where
    a: "MH_chain mhs g n_samples x0 burn_in thin = Inr st"
    "MH_inv mhs g (nat (burn_in + n_samples * thin)) (length x0) x0
       (nat (burn_in + n_samples * thin) - 1) st"
    "py_slice_from (all_samples st) burn_in thin = Inr kept"
    "kept = map (\<lambda>k. all_samples st ! nat (burn_in + int k * thin)) [0..<nat n_samples]"
    "MetropolisHastings_sample mhs g n_samples x0 burn_in thin =
       Inr (kept, mhs\<lparr>samples := Some kept, acceptance_rate := Some (Fin r)\<rparr>)"
    "length kept = nat n_samples" "\<forall>x\<in>set kept. length x = length x0"
    by blast
  have s: "samples (mhs\<lparr>samples := Some kept, acceptance_rate := Some (Fin r)\<rparr>) = Some kept"
    by simp
  from MH_inv_final [OF a(2)] a(1,3,4,5,6,7) s
  show "\<exists>st kept self'.
            MH_chain mhs g n_samples x0 burn_in thin = Inr st \<and>
            length (all_samples st) = nat (burn_in + n_samples * thin) \<and>
            rng_calls st = 2 * (nat (burn_in + n_samples * thin) - 1) \<and>
            all_samples st ! 0 = x0 \<and>
            (\<forall>i. 1 \<le> i \<and> i < nat (burn_in + n_samples * thin) \<longrightarrow>
               MH_row mhs g (all_samples st) i) \<and>
            py_slice_from (all_samples st) burn_in thin = Inr kept \<and>
            kept = map (\<lambda>k. all_samples st ! nat (burn_in + int k * thin)) [0..<nat n_samples] \<and>
            MetropolisHastings_sample mhs g n_samples x0 burn_in thin = Inr (kept, self') \<and>
            samples self' = Some kept \<and>
            length kept = nat n_samples \<and> (\<forall>x\<in>set kept. length x = length x0)"
    by (intro exI [of _ st] exI [of _ kept]
          exI [of _ "mhs\<lparr>samples := Some kept, acceptance_rate := Some (Fin r)\<rparr>"]) blast
next
  from HMC_sample_run [OF assms(6) assms(1) assms(2) assms(3) assms(4), of g x0]
  obtain st kept r where
    a: "HMC_chain hs g n_samples x0 burn_in thin = Inr st"
    "HMC_inv hs g (nat (burn_in + n_samples * thin)) (length x0) x0
       (nat (burn_in + n_samples * thin) - 1) st"
    "py_slice_from (all_samples st) burn_in thin = Inr kept"
    "kept = map (\<lambda>k. all_samples st ! nat (burn_in + int k * thin)) [0..<nat n_samples]"
    "HamiltonianMC_sample hs g n_samples x0 burn_in thin =
       Inr (kept, hs\<lparr>samples := Some kept, acceptance_rate := Some (Fin r)\<rparr>)"
    "length kept = nat n_samples" "\<forall>x\<in>set kept. length x = length x0"
    by blast
  have s: "samples (hs\<lparr>samples := Some kept, acceptance_rate := Some (Fin r)\<rparr>) = Some kept"
    by simp
  from HMC_inv_final [OF a(2)] a(1,3,4,5,6,7) s
  show "\<exists>st kept self'.
            HMC_chain hs g n_samples x0 burn_in thin = Inr st \<and>
            length (all_samples st) = nat (burn_in + n_samples * thin) \<and>
            rng_calls st = 2 * (nat (burn_in + n_samples * thin) - 1) \<and>
            all_samples st ! 0 = x0 \<and>
            (\<forall>i. 1 \<le> i \<and> i < nat (burn_in + n_samples * thin) \<longrightarrow>
               HMC_row hs g (length x0) (all_samples st) i) \<and>
            py_slice_from (all_samples st) burn_in thin = Inr kept \<and>
            kept = map (\<lambda>k. all_samples st ! nat (burn_in + int k * thin)) [0..<nat n_samples] \<and>
            HamiltonianMC_sample hs g n_samples x0 burn_in thin = Inr (kept, self') \<and>
            samples self' = Some kept \<and>
            length kept = nat n_samples \<and> (\<forall>x\<in>set kept. length x = length x0)"
    by (intro exI [of _ st] exI [of _ kept]
          exI [of _ "hs\<lparr>samples := Some kept, acceptance_rate := Some (Fin r)\<rparr>"]) blast
qed

theorem sample_returns_n_samples_rows_witness:
  "(0::int) \<le> 2 \<and> (0::int) \<le> 1 \<and> (1::int) \<le> 3 \<and> (1::int) \<le> 1 + 2 * 3 \<and>
   \<not> flt (proposal_std ex_mh) (Fin 0) \<and>
   (\<forall>x. length (grad_log_density ex_hmc x) = length x) \<and>
   (\<exists>st kept self'.
      MH_chain ex_mh ex_rng 2 [Fin 0, Fin 0] 1 3 = Inr st \<and>
      length (all_samples st) = nat (1 + 2 * 3) \<and>
      rng_calls st = 2 * (nat (1 + 2 * 3) - 1) \<and>
      all_samples st ! 0 = [Fin 0, Fin 0] \<and>
      (\<forall>i. 1 \<le> i \<and> i < nat (1 + 2 * 3) \<longrightarrow> MH_row ex_mh ex_rng (all_samples st) i) \<and>
      py_slice_from (all_samples st) 1 3 = Inr kept \<and>
      kept = map (\<lambda>k. all_samples st ! nat (1 + int k * 3)) [0..<nat 2] \<and>
      MetropolisHastings_sample ex_mh ex_rng 2 [Fin 0, Fin 0] 1 3 = Inr (kept, self') \<and>
      samples self' = Some kept \<and>
      length kept = nat 2 \<and> (\<forall>x\<in>set kept. length x = length [Fin 0, Fin 0])) \<and>
   (\<exists>st kept self'.
      HMC_chain ex_hmc ex_rng 2 [Fin 0, Fin 0] 1 3 = Inr st \<and>
      length (all_samples st) = nat (1 + 2 * 3) \<and>
      rng_calls st = 2 * (nat (1 + 2 * 3) - 1) \<and>
      all_samples st ! 0 = [Fin 0, Fin 0] \<and>
      (\<forall>i. 1 \<le> i \<and> i < nat (1 + 2 * 3) \<longrightarrow>
         HMC_row ex_hmc ex_rng (length [Fin 0, Fin 0]) (all_samples st) i) \<and>
      py_slice_from (all_samples st) 1 3 = Inr kept \<and>
      kept = map (\<lambda>k. all_samples st ! nat (1 + int k * 3)) [0..<nat 2] \<and>
      HamiltonianMC_sample ex_hmc ex_rng 2 [Fin 0, Fin 0] 1 3 = Inr (kept, self') \<and>
      samples self' = Some kept \<and>
      length kept = nat 2 \<and> (\<forall>x\<in>set kept. length x = length [Fin 0, Fin 0]))"
proof -
  have h: "\<not> flt (proposal_std ex_mh) (Fin 0)"
    "\<forall>x. length (grad_log_density ex_hmc x) = length x"
    by (simp_all add: ex_mh_def ex_hmc_def)
  have n: "(0::int) \<le> 2" "(0::int) \<le> 1" "(1::int) \<le> 3" "(1::int) \<le> 1 + 2 * 3" by simp_all
  note inst = sample_returns_n_samples_rows [of 2 1 3 ex_mh ex_hmc ex_rng "[Fin 0, Fin 0]", OF n h]
  from inst h n show ?thesis by blast
qed

text \<open>
  C10. Under the same conditions the stored \<open>acceptance_rate\<close> is at most \<open>(T - 1) / T\<close>
  for the total iteration count \<open>T = burn_in + n_samples * thin\<close>, hence below one: the
  loop makes \<open>T - 1\<close> decisions and divides the count of acceptances by \<open>T\<close>.
\<close>

theorem acceptance_rate_below_one:
  assumes "0 \<le> n_samples" and "0 \<le> burn_in" and "1 \<le> thin"
    and "1 \<le> burn_in + n_samples * thin"
    and "\<not> flt (proposal_std mhs) (Fin 0)"
    and "\<forall>x. length (grad_log_density hs x) = length x"
  shows "(\<exists>kept self' r.
            MetropolisHastings_sample mhs g n_samples x0 burn_in thin = Inr (kept, self') \<and>
            acceptance_rate self' = Some (Fin r) \<and>
            r \<le> (real_of_int (burn_in + n_samples * thin) - 1) / real_of_int (burn_in + n_samples * thin) \<and>
            r < 1) \<and>
         (\<exists>kept self' r.
            HamiltonianMC_sample hs g n_samples x0 burn_in thin = Inr (kept, self') \<and>
            acceptance_rate self' = Some (Fin r) \<and>
            r \<le> (real_of_int (burn_in + n_samples * thin) - 1) / real_of_int (burn_in + n_samples * thin) \<and>
            r < 1)"
proof
  from MH_sample_run [OF assms(5) assms(1) assms(2) assms(3) assms(4), of g x0]
  obtain kept r where
    "MetropolisHastings_sample mhs g n_samples x0 burn_in thin =
       Inr (kept, mhs\<lparr>samples := Some kept, acceptance_rate := Some (Fin r)\<rparr>)"
    "r \<le> (real_of_int (burn_in + n_samples * thin) - 1) / real_of_int (burn_in + n_samples * thin)"
    "r < 1"
    by blast
  then show "\<exists>kept self' r.
            MetropolisHastings_sample mhs g n_samples x0 burn_in thin = Inr (kept, self') \<and>
            acceptance_rate self' = Some (Fin r) \<and>
            r \<le> (real_of_int (burn_in + n_samples * thin) - 1) / real_of_int (burn_in + n_samples * thin) \<and>
            r < 1"
    by (intro exI [of _ kept] exI [of _ r]
          exI [of _ "mhs\<lparr>samples := Some kept, acceptance_rate := Some (Fin r)\<rparr>"]) simp
next
  from HMC_sample_run [OF assms(6) assms(1) assms(2) assms(3) assms(4), of g x0]
  obtain kept r where
    "HamiltonianMC_sample hs g n_samples x0 burn_in thin =
       Inr (kept, hs\<lparr>samples := Some kept, acceptance_rate := Some (Fin r)\<rparr>)"
    "r \<le> (real_of_int (burn_in + n_samples * thin) - 1) / real_of_int (burn_in + n_samples * thin)"
    "r < 1"
    by blast
  then show "\<exists>kept self' r.
            HamiltonianMC_sample hs g n_samples x0 burn_in thin = Inr (kept, self') \<and>
            acceptance_rate self' = Some (Fin r) \<and>
            r \<le> (real_of_int (burn_in + n_samples * thin) - 1) / real_of_int (burn_in + n_samples * thin) \<and>
            r < 1"
    by (intro exI [of _ kept] exI [of _ r]
          exI [of _ "hs\<lparr>samples := Some kept, acceptance_rate := Some (Fin r)\<rparr>"]) simp
qed

theorem acceptance_rate_below_one_witness:
  "(0::int) \<le> 2 \<and> (0::int) \<le> 1 \<and> (1::int) \<le> 3 \<and> (1::int) \<le> 1 + 2 * 3 \<and>
   \<not> flt (proposal_std ex_mh) (Fin 0) \<and>
   (\<forall>x. length (grad_log_density ex_hmc x) = length x) \<and>
   (\<exists>kept self' r.
      MetropolisHastings_sample ex_mh ex_rng 2 [Fin 0, Fin 0] 1 3 = Inr (kept, self') \<and>
      acceptance_rate self' = Some (Fin r) \<and>
      r \<le> (real_of_int (1 + 2 * 3) - 1) / real_of_int (1 + 2 * 3) \<and> r < 1) \<and>
   (\<exists>kept self' r.
      HamiltonianMC_sample ex_hmc ex_rng 2 [Fin 0, Fin 0] 1 3 = Inr (kept, self') \<and>
      acceptance_rate self' = Some (Fin r) \<and>
      r \<le> (real_of_int (1 + 2 * 3) - 1) / real_of_int (1 + 2 * 3) \<and> r < 1)"
proof -
  have h: "\<not> flt (proposal_std ex_mh) (Fin 0)"
    "\<forall>x. length (grad_log_density ex_hmc x) = length x"
    by (simp_all add: ex_mh_def ex_hmc_def)
  from acceptance_rate_below_one [of 2 1 3 ex_mh ex_hmc ex_rng "[Fin 0, Fin 0]", OF _ _ _ _ h]
  show ?thesis using h by simp
qed

subsection \<open>Construction\<close>

text \<open>
  C8 claims that a constructor or the start of \<open>sample()\<close> rejects an invalid
  configuration with a configuration error. The constructors only store their arguments:
  a negative \<open>proposal_std\<close>, a negative \<open>epsilon\<close> and a negative \<open>L\<close> are accepted. With
  the negative \<open>proposal_std\<close> a run of one iteration in total returns, and a run of two
  raises \<open>ValueError\<close> from the first proposal, inside the loop.
\<close>

theorem constructors_do_not_validate_counterexample:
  "MetropolisHastings_init (\<lambda>q. Fin 0) (Fin (- 1)) =
     Inr \<lparr>samples = None, acceptance_rate = None, target_log_density = (\<lambda>q. Fin 0),
          proposal_std = Fin (- 1)\<rparr> \<and>
   MetropolisHastings_sample (ex_mh\<lparr>proposal_std := Fin (- 1)\<rparr>) ex_rng 1 [Fin 0] 0 1 =
     Inr ([[Fin 0]], ex_mh\<lparr>proposal_std := Fin (- 1), samples := Some [[Fin 0]],
                            acceptance_rate := Some (Fin 0)\<rparr>) \<and>
   MetropolisHastings_sample (ex_mh\<lparr>proposal_std := Fin (- 1)\<rparr>) ex_rng 1 [Fin 0] 1 1 =
     Inl ValueError \<and>
   HamiltonianMC_init (\<lambda>q. Fin 0) (\<lambda>q. q) (Fin (- 1)) (- 5) =
     Inr \<lparr>samples = None, acceptance_rate = None, log_density = (\<lambda>q. Fin 0),
          grad_log_density = (\<lambda>q. q), epsilon = Fin (- 1), L = - 5\<rparr>"
  by (simp add: MetropolisHastings_init_def HamiltonianMC_init_def MetropolisHastings_sample_def
      MH_chain_def ex_mh_def ex_rng_def np_zeros_def np_setrow_def py_truediv_def py_slice_from_def
      MH_iteration_def np_getrow_def MH_propose_def np_random_normal_def eval_nat_numeral)

text \<open>
  C8, as the code has it: the three constructors never raise and return the object that
  holds the arguments as given, with no samples and no acceptance rate yet.
\<close>

theorem constructors_store_arguments:
  "MetropolisHastings_init tld std =
     Inr \<lparr>samples = None, acceptance_rate = None, target_log_density = tld, proposal_std = std\<rparr> \<and>
   HamiltonianMC_init ld gld eps l =
     Inr \<lparr>samples = None, acceptance_rate = None, log_density = ld, grad_log_density = gld,
          epsilon = eps, L = l\<rparr> \<and>
   NUTS_init ld gld eps dl =
     Inr \<lparr>samples = None, acceptance_rate = None, log_density = ld, grad_log_density = gld,
          epsilon = eps, delta = dl, epsilon_history = []\<rparr>"
  by (simp add: MetropolisHastings_init_def HamiltonianMC_init_def NUTS_init_def)

subsection \<open>The range of the exponential\<close>

lemma ln2_lower: "1 / 2 < ln (2::real)"
proof -
  have "exp (1 / 2 :: real) \<le> 1 + 1 / 2 + (1 / 2)\<^sup>2" by (rule exp_bound) simp_all
  also have "\<dots> < 2" by (simp add: power2_eq_square)
  finally have "exp (1 / 2 :: real) < exp (ln 2)" by simp
  then show ?thesis by (simp only: exp_less_cancel_iff)
qed

lemma ln2_upper: "ln (2::real) < 3723 / 5000"
proof -
  have "(2::real) < 1 + 3723 / 5000 + (3723 / 5000)\<^sup>2 / 2" by (simp add: power2_eq_square)
  also have "\<dots> \<le> exp (3723 / 5000)" by (rule exp_lower_Taylor_quadratic) simp
  finally have "exp (ln 2) < exp (3723 / 5000 :: real)" by simp
  then show ?thesis by (simp only: exp_less_cancel_iff)
qed

lemma exp_underflow_bounds: "- (1601 / 2) < exp_underflow" "exp_underflow < - 537"
  unfolding exp_underflow_def using ln2_lower ln2_upper by linarith+

lemma exp_overflow_bounds: "512 < exp_overflow" "exp_overflow < 763"
  unfolding exp_overflow_def using ln2_lower ln2_upper by linarith+

lemma exp_underflow_below_overflow: "exp_underflow < exp_overflow"
  using exp_underflow_bounds(2) exp_overflow_bounds(1) by linarith

lemma fexp_Fin_normal: "- 537 \<le> a \<Longrightarrow> a \<le> 512 \<Longrightarrow> fexp (Fin a) = Fin (exp a)"
  using exp_underflow_bounds(2) exp_overflow_bounds(1) by simp

lemma fexp_Fin_underflow: "a \<le> - (1601 / 2) \<Longrightarrow> fexp (Fin a) = Fin 0"
  using exp_underflow_bounds(1) by simp



lemma py_min_one_fexp: "\<exists>a. py_min (Fin 1) (fexp x) = Fin a \<and> 0 \<le> a \<and> a \<le> 1"
  by (cases x) (auto simp: py_min_def)

subsection \<open>The base case of the tree\<close>

lemma NUTS_leapfrog_ok:
  assumes g: "\<forall>x. length (grad_log_density self x) = length x" and "length p = length q"
  shows "\<exists>q' p'. NUTS_leapfrog self q p e = Inr (q', p') \<and> length q' = length q \<and> length p' = length q"
  using assms by (simp add: NUTS_leapfrog_def np_add_same)

lemma b2i_eq_1 [simp]: "(b2i b = 1) = b"
  by (simp add: b2i_def)

lemma b2i_eq_0 [simp]: "(b2i b = 0) = (\<not> b)"
  by (simp add: b2i_def)

lemma build_tree_leaf_underflow:
  assumes "hamiltonian self q' p' = Fin h" "u = Fin x" "0 \<le> x" "- h \<le> exp_underflow"
  shows "n_prime (build_tree_leaf self u q0 p0 q' p') = 0"
  using assms by (simp add: build_tree_leaf_def Let_def)

lemma build_tree_leaf_overflow:
  assumes "hamiltonian self q' p' = Fin h" "isfinite u" "exp_overflow \<le> 1000 - h"
  shows "s_prime (build_tree_leaf self u q0 p0 q' p') = 1"
proof -
  from assms(3) exp_underflow_below_overflow have "\<not> 1000 - h \<le> exp_underflow" by linarith
  with assms show ?thesis
    by (cases u) (simp_all add: build_tree_leaf_def Let_def fsub_def)
qed

text \<open>
  C4. At depth 0 \<open>build_tree\<close> takes one leapfrog step of size \<open>v * epsilon\<close> (which
  returns whenever the gradient has the dimension of its argument), and from its result
  \<open>(q', p')\<close> with \<open>H' = H(q', p')\<close> and \<open>H0 = H(q0, p0)\<close> it returns \<open>(q', p')\<close> as
  every endpoint and as the proposal, \<open>n' = 1\<close> iff \<open>u < exp(-H')\<close> and else 0,
  \<open>s' = 1\<close> iff \<open>u < exp(1000 - H')\<close> and else 0, \<open>alpha' = min(1, exp(-H' + H0))\<close>
  and \<open>n_alpha' = 1\<close>; no call to the random generator is made. The exponential is the
  one of the doubles and the comparisons are theirs, so \<open>alpha'\<close> is a number between 0
  and 1 whatever the energies are, an energy \<open>H'\<close> of about 745.14 or more makes
  \<open>exp(-H')\<close> zero and \<open>n' = 0\<close> for every \<open>u \<ge> 0\<close>, and an energy \<open>H'\<close> of about
  290.21 or less makes \<open>exp(1000 - H')\<close> infinite and \<open>s' = 1\<close> for every finite \<open>u\<close>.
\<close>

theorem build_tree_base_case:
  "((\<forall>x. length (grad_log_density self x) = length x) \<and> length p = length q \<longrightarrow>
      (\<exists>q' p'. NUTS_leapfrog self q p (fmul (Fin (real_of_int v)) eps) = Inr (q', p'))) \<and>
   (\<forall>q' p'. NUTS_leapfrog self q p (fmul (Fin (real_of_int v)) eps) = Inr (q', p') \<longrightarrow>
      (\<exists>t. build_tree self g q p u v 0 eps q0 p0 c = Inr (t, c) \<and>
           q_new t = q' \<and> p_new t = p' \<and> q_fwd t = q' \<and> p_fwd t = p' \<and>
           q_bwd t = q' \<and> p_bwd t = p' \<and> q_prime t = q' \<and> p_prime t = p' \<and>
           n_prime t = (if flt u (fexp (fneg (hamiltonian self q' p'))) then 1 else 0) \<and>
           s_prime t = (if flt u (fexp (fsub (Fin 1000) (hamiltonian self q' p'))) then 1 else 0) \<and>
           alpha_prime t =
             py_min (Fin 1) (fexp (fadd (fneg (hamiltonian self q' p')) (hamiltonian self q0 p0))) \<and>
           n_alpha_prime t = 1 \<and>
           (\<exists>a. alpha_prime t = Fin a \<and> 0 \<le> a \<and> a \<le> 1) \<and>
           (\<forall>h x. hamiltonian self q' p' = Fin h \<and> u = Fin x \<and> 0 \<le> x \<and> - h \<le> exp_underflow \<longrightarrow>
              n_prime t = 0) \<and>
           (\<forall>h. hamiltonian self q' p' = Fin h \<and> isfinite u \<and> exp_overflow \<le> 1000 - h \<longrightarrow>
              s_prime t = 1)))"
proof (intro conjI allI impI)
  assume "(\<forall>x. length (grad_log_density self x) = length x) \<and> length p = length q"
  then show "\<exists>q' p'. NUTS_leapfrog self q p (fmul (Fin (real_of_int v)) eps) = Inr (q', p')"
    using NUTS_leapfrog_ok [of self p q "fmul (Fin (real_of_int v)) eps"] by blast
next
  fix q' p'
  assume lf: "NUTS_leapfrog self q p (fmul (Fin (real_of_int v)) eps) = Inr (q', p')"
  let ?t = "build_tree_leaf self u q0 p0 q' p'"
  have bt: "build_tree self g q p u v 0 eps q0 p0 c = Inr (?t, c)"
    using lf by simp
  have a: "alpha_prime ?t =
             py_min (Fin 1) (fexp (fadd (fneg (hamiltonian self q' p')) (hamiltonian self q0 p0)))"
    by (simp add: build_tree_leaf_def Let_def)
  have rng: "\<exists>a. alpha_prime ?t = Fin a \<and> 0 \<le> a \<and> a \<le> 1"
    unfolding a by (rule py_min_one_fexp)
  have under: "\<forall>h x. hamiltonian self q' p' = Fin h \<and> u = Fin x \<and> 0 \<le> x \<and> - h \<le> exp_underflow \<longrightarrow>
              n_prime ?t = 0"
    using build_tree_leaf_underflow by blast
  have over: "\<forall>h. hamiltonian self q' p' = Fin h \<and> isfinite u \<and> exp_overflow \<le> 1000 - h \<longrightarrow>
              s_prime ?t = 1"
    using build_tree_leaf_overflow by blast
  have flds: "q_new ?t = q' \<and> p_new ?t = p' \<and> q_fwd ?t = q' \<and> p_fwd ?t = p' \<and>
           q_bwd ?t = q' \<and> p_bwd ?t = p' \<and> q_prime ?t = q' \<and> p_prime ?t = p' \<and>
           n_prime ?t = (if flt u (fexp (fneg (hamiltonian self q' p'))) then 1 else 0) \<and>
           s_prime ?t = (if flt u (fexp (fsub (Fin 1000) (hamiltonian self q' p'))) then 1 else 0)"
    by (simp add: build_tree_leaf_def Let_def b2i_def)
  have na: "n_alpha_prime ?t = 1" by (simp add: build_tree_leaf_def Let_def)
  show "\<exists>t. build_tree self g q p u v 0 eps q0 p0 c = Inr (t, c) \<and>
           q_new t = q' \<and> p_new t = p' \<and> q_fwd t = q' \<and> p_fwd t = p' \<and>
           q_bwd t = q' \<and> p_bwd t = p' \<and> q_prime t = q' \<and> p_prime t = p' \<and>
           n_prime t = (if flt u (fexp (fneg (hamiltonian self q' p'))) then 1 else 0) \<and>
           s_prime t = (if flt u (fexp (fsub (Fin 1000) (hamiltonian self q' p'))) then 1 else 0) \<and>
           alpha_prime t =
             py_min (Fin 1) (fexp (fadd (fneg (hamiltonian self q' p')) (hamiltonian self q0 p0))) \<and>
           n_alpha_prime t = 1 \<and>
           (\<exists>a. alpha_prime t = Fin a \<and> 0 \<le> a \<and> a \<le> 1) \<and>
           (\<forall>h x. hamiltonian self q' p' = Fin h \<and> u = Fin x \<and> 0 \<le> x \<and> - h \<le> exp_underflow \<longrightarrow>
              n_prime t = 0) \<and>
           (\<forall>h. hamiltonian self q' p' = Fin h \<and> isfinite u \<and> exp_overflow \<le> 1000 - h \<longrightarrow>
              s_prime t = 1)"
    apply (rule exI [where x = ?t])
    using bt a rng under over flds na by blast
qed

declare fexp.simps(1) [simp del]

theorem build_tree_base_case_witness:
  "NUTS_leapfrog low_nuts [Fin 0] [Fin 1] (fmul (Fin (real_of_int 1)) (Fin 1)) = Inr ([Fin 1], [Fin 1]) \<and>
   hamiltonian low_nuts [Fin 1] [Fin 1] = Fin (1601 / 2) \<and>
   hamiltonian low_nuts [Fin 0] [Fin 1] = Fin (1601 / 2) \<and>
   - (1601 / 2) \<le> exp_underflow \<and>
   (\<exists>t. build_tree low_nuts ex_rng [Fin 0] [Fin 1] (Fin 0) 1 0 (Fin 1) [Fin 0] [Fin 1] 7 = Inr (t, 7) \<and>
        q_new t = [Fin 1] \<and> p_new t = [Fin 1] \<and> q_fwd t = [Fin 1] \<and> p_fwd t = [Fin 1] \<and>
        q_bwd t = [Fin 1] \<and> p_bwd t = [Fin 1] \<and> q_prime t = [Fin 1] \<and> p_prime t = [Fin 1] \<and>
        n_prime t = 0 \<and> s_prime t = 1 \<and> alpha_prime t = Fin 1 \<and> n_alpha_prime t = 1) \<and>
   NUTS_leapfrog ex_nuts [Fin 0] [Fin 1] (fmul (Fin (real_of_int 1)) (Fin 2)) = Inr ([Fin 2], [Fin 1]) \<and>
   hamiltonian ex_nuts [Fin 2] [Fin 1] = Fin (1 / 2) \<and>
   hamiltonian ex_nuts [Fin 0] [Fin 3] = Fin (9 / 2) \<and>
   exp_overflow \<le> 1000 - 1 / 2 \<and>
   (\<exists>t. build_tree ex_nuts ex_rng [Fin 0] [Fin 1] (Fin 0) 1 0 (Fin 2) [Fin 0] [Fin 3] 7 = Inr (t, 7) \<and>
        q_new t = [Fin 2] \<and> p_new t = [Fin 1] \<and> q_fwd t = [Fin 2] \<and> p_fwd t = [Fin 1] \<and>
        q_bwd t = [Fin 2] \<and> p_bwd t = [Fin 1] \<and> q_prime t = [Fin 2] \<and> p_prime t = [Fin 1] \<and>
        n_prime t = 1 \<and> s_prime t = 1 \<and> alpha_prime t = Fin 1 \<and> n_alpha_prime t = 1)"
proof -
  have lf1: "NUTS_leapfrog low_nuts [Fin 0] [Fin 1] (fmul (Fin (real_of_int 1)) (Fin 1)) = Inr ([Fin 1], [Fin 1])"
    by (simp add: NUTS_leapfrog_def low_nuts_def np_add_def np_smul_def)
  have h1: "hamiltonian low_nuts [Fin 1] [Fin 1] = Fin (1601 / 2)"
    "hamiltonian low_nuts [Fin 0] [Fin 1] = Fin (1601 / 2)"
    by (simp_all add: hamiltonian_def low_nuts_def np_sum_def np_square_def)
  have u1: "- (1601 / 2) \<le> exp_underflow" using exp_underflow_bounds(1) by simp
  have e1: "fexp (fsub (Fin 1000) (Fin (1601 / 2))) = Fin (exp (399 / 2))"
    "fexp (fadd (fneg (Fin (1601 / 2))) (Fin (1601 / 2))) = Fin 1"
    by (simp_all add: fsub_def fexp_Fin_normal)
  from build_tree_base_case [of low_nuts "[Fin 1]" "[Fin 0]" 1 "Fin 1" ex_rng "Fin 0" "[Fin 0]" "[Fin 1]" 7]
  have "\<exists>t. build_tree low_nuts ex_rng [Fin 0] [Fin 1] (Fin 0) 1 0 (Fin 1) [Fin 0] [Fin 1] 7 = Inr (t, 7) \<and>
           q_new t = [Fin 1] \<and> p_new t = [Fin 1] \<and> q_fwd t = [Fin 1] \<and> p_fwd t = [Fin 1] \<and>
           q_bwd t = [Fin 1] \<and> p_bwd t = [Fin 1] \<and> q_prime t = [Fin 1] \<and> p_prime t = [Fin 1] \<and>
           s_prime t = (if flt (Fin 0) (fexp (fsub (Fin 1000) (hamiltonian low_nuts [Fin 1] [Fin 1]))) then 1 else 0) \<and>
           alpha_prime t =
             py_min (Fin 1) (fexp (fadd (fneg (hamiltonian low_nuts [Fin 1] [Fin 1])) (hamiltonian low_nuts [Fin 0] [Fin 1]))) \<and>
           n_alpha_prime t = 1 \<and>
           (\<forall>h x. hamiltonian low_nuts [Fin 1] [Fin 1] = Fin h \<and> Fin 0 = Fin x \<and> 0 \<le> x \<and> - h \<le> exp_underflow \<longrightarrow>
              n_prime t = 0)"
    using lf1 by blast
  then obtain t1 where
    t1: "build_tree low_nuts ex_rng [Fin 0] [Fin 1] (Fin 0) 1 0 (Fin 1) [Fin 0] [Fin 1] 7 = Inr (t1, 7)"
       "q_new t1 = [Fin 1]" "p_new t1 = [Fin 1]" "q_fwd t1 = [Fin 1]" "p_fwd t1 = [Fin 1]"
       "q_bwd t1 = [Fin 1]" "p_bwd t1 = [Fin 1]" "q_prime t1 = [Fin 1]" "p_prime t1 = [Fin 1]"
       "n_alpha_prime t1 = 1"
    and s1: "s_prime t1 = (if flt (Fin 0) (fexp (fsub (Fin 1000) (hamiltonian low_nuts [Fin 1] [Fin 1]))) then 1 else 0)"
    and a1: "alpha_prime t1 =
             py_min (Fin 1) (fexp (fadd (fneg (hamiltonian low_nuts [Fin 1] [Fin 1])) (hamiltonian low_nuts [Fin 0] [Fin 1])))"
    and n1: "\<forall>h x. hamiltonian low_nuts [Fin 1] [Fin 1] = Fin h \<and> Fin 0 = Fin x \<and> 0 \<le> x \<and> - h \<le> exp_underflow \<longrightarrow>
              n_prime t1 = 0"
    by blast
  from n1 [rule_format, of "1601 / 2" 0] h1 u1 have n1': "n_prime t1 = 0" by simp
  from s1 a1 have sa1: "s_prime t1 = 1" "alpha_prime t1 = Fin 1"
    unfolding h1 e1 by (simp_all add: py_min_def)
  have first: "\<exists>t. build_tree low_nuts ex_rng [Fin 0] [Fin 1] (Fin 0) 1 0 (Fin 1) [Fin 0] [Fin 1] 7 = Inr (t, 7) \<and>
        q_new t = [Fin 1] \<and> p_new t = [Fin 1] \<and> q_fwd t = [Fin 1] \<and> p_fwd t = [Fin 1] \<and>
        q_bwd t = [Fin 1] \<and> p_bwd t = [Fin 1] \<and> q_prime t = [Fin 1] \<and> p_prime t = [Fin 1] \<and>
        n_prime t = 0 \<and> s_prime t = 1 \<and> alpha_prime t = Fin 1 \<and> n_alpha_prime t = 1"
    using t1 n1' sa1 by blast
  have lf2: "NUTS_leapfrog ex_nuts [Fin 0] [Fin 1] (fmul (Fin (real_of_int 1)) (Fin 2)) = Inr ([Fin 2], [Fin 1])"
    by (simp add: NUTS_leapfrog_def ex_nuts_def np_add_def np_smul_def)
  have h2: "hamiltonian ex_nuts [Fin 2] [Fin 1] = Fin (1 / 2)"
    "hamiltonian ex_nuts [Fin 0] [Fin 3] = Fin (9 / 2)"
    by (simp_all add: hamiltonian_def ex_nuts_def np_sum_def np_square_def)
  have o2: "exp_overflow \<le> 1000 - 1 / 2" using exp_overflow_bounds(2) by simp
  have e2: "fexp (fneg (Fin (1 / 2))) = Fin (exp (- (1 / 2)))"
    "fexp (fadd (fneg (Fin (1 / 2))) (Fin (9 / 2))) = Fin (exp 4)"
    by (simp_all add: fexp_Fin_normal)
  from build_tree_base_case [of ex_nuts "[Fin 1]" "[Fin 0]" 1 "Fin 2" ex_rng "Fin 0" "[Fin 0]" "[Fin 3]" 7]
  have "\<exists>t. build_tree ex_nuts ex_rng [Fin 0] [Fin 1] (Fin 0) 1 0 (Fin 2) [Fin 0] [Fin 3] 7 = Inr (t, 7) \<and>
           q_new t = [Fin 2] \<and> p_new t = [Fin 1] \<and> q_fwd t = [Fin 2] \<and> p_fwd t = [Fin 1] \<and>
           q_bwd t = [Fin 2] \<and> p_bwd t = [Fin 1] \<and> q_prime t = [Fin 2] \<and> p_prime t = [Fin 1] \<and>
           n_prime t = (if flt (Fin 0) (fexp (fneg (hamiltonian ex_nuts [Fin 2] [Fin 1]))) then 1 else 0) \<and>
           alpha_prime t =
             py_min (Fin 1) (fexp (fadd (fneg (hamiltonian ex_nuts [Fin 2] [Fin 1])) (hamiltonian ex_nuts [Fin 0] [Fin 3]))) \<and>
           n_alpha_prime t = 1 \<and>
           (\<forall>h. hamiltonian ex_nuts [Fin 2] [Fin 1] = Fin h \<and> isfinite (Fin 0) \<and> exp_overflow \<le> 1000 - h \<longrightarrow>
              s_prime t = 1)"
    using lf2 by blast
  then obtain t2 where
    t2: "build_tree ex_nuts ex_rng [Fin 0] [Fin 1] (Fin 0) 1 0 (Fin 2) [Fin 0] [Fin 3] 7 = Inr (t2, 7)"
       "q_new t2 = [Fin 2]" "p_new t2 = [Fin 1]" "q_fwd t2 = [Fin 2]" "p_fwd t2 = [Fin 1]"
       "q_bwd t2 = [Fin 2]" "p_bwd t2 = [Fin 1]" "q_prime t2 = [Fin 2]" "p_prime t2 = [Fin 1]"
       "n_alpha_prime t2 = 1"
    and n2: "n_prime t2 = (if flt (Fin 0) (fexp (fneg (hamiltonian ex_nuts [Fin 2] [Fin 1]))) then 1 else 0)"
    and a2: "alpha_prime t2 =
             py_min (Fin 1) (fexp (fadd (fneg (hamiltonian ex_nuts [Fin 2] [Fin 1])) (hamiltonian ex_nuts [Fin 0] [Fin 3])))"
    and s2: "\<forall>h. hamiltonian ex_nuts [Fin 2] [Fin 1] = Fin h \<and> isfinite (Fin 0) \<and> exp_overflow \<le> 1000 - h \<longrightarrow>
              s_prime t2 = 1"
    by blast
  from s2 [rule_format, of "1 / 2"] h2 o2 have s2': "s_prime t2 = 1" by simp
  from n2 a2 have na2: "n_prime t2 = 1" "alpha_prime t2 = Fin 1"
    unfolding h2 e2 by (simp_all add: py_min_def)
  have second: "\<exists>t. build_tree ex_nuts ex_rng [Fin 0] [Fin 1] (Fin 0) 1 0 (Fin 2) [Fin 0] [Fin 3] 7 = Inr (t, 7) \<and>
        q_new t = [Fin 2] \<and> p_new t = [Fin 1] \<and> q_fwd t = [Fin 2] \<and> p_fwd t = [Fin 1] \<and>
        q_bwd t = [Fin 2] \<and> p_bwd t = [Fin 1] \<and> q_prime t = [Fin 2] \<and> p_prime t = [Fin 1] \<and>
        n_prime t = 1 \<and> s_prime t = 1 \<and> alpha_prime t = Fin 1 \<and> n_alpha_prime t = 1"
    using t2 s2' na2 by blast
  from lf1 h1 u1 first lf2 h2 o2 second show ?thesis by blast
qed

subsection \<open>Numerical pathologies in the acceptance step\<close>

text \<open>
  C1 claims that a NaN target evaluation gives acceptance probability 0. It does not:
  \<open>min(1.0, nan)\<close> is \<open>1.0\<close>, so a proposal whose log-density (MH) or Hamiltonian (HMC)
  is NaN is accepted with probability one and the chain moves to it instead of repeating
  the previous state.
\<close>

theorem nan_density_is_accepted_counterexample:
  "MH_propose nan_mh ex_rng 0 [Fin 0] = Inr [Fin 1] \<and>
   target_log_density nan_mh [Fin 1] = NaN \<and>
   MH_acceptance_probability nan_mh [Fin 0] [Fin 1] = Fin 1 \<and>
   MH_chain nan_mh ex_rng 1 [Fin 0] 1 1 =
     Inr \<lparr>all_samples = [[Fin 0], [Fin 1]], accepted = 1, rng_calls = 2\<rparr> \<and>
   HMC_leapfrog nan_hmc [Fin 0] (np_random_randn ex_rng 0 1) = Inr ([Fin 1], [Fin (- 1)]) \<and>
   hamiltonian nan_hmc [Fin 1] [Fin (- 1)] = NaN \<and>
   HMC_chain nan_hmc ex_rng 1 [Fin 0] 1 1 =
     Inr \<lparr>all_samples = [[Fin 0], [Fin 1]], accepted = 1, rng_calls = 2\<rparr>"
  by (simp add: nan_mh_def nan_hmc_def ex_rng_def MH_propose_def np_random_normal_def np_add_def
      MH_acceptance_probability_def fsub_def py_min_def MH_chain_def np_zeros_def np_setrow_def
      MH_iteration_def np_getrow_def np_random_rand_def HMC_leapfrog_def np_random_randn_def
      np_smul_def np_neg_def hamiltonian_def np_sum_def np_square_def HMC_chain_def
      HMC_iteration_def eval_nat_numeral)


lemma MH_iteration_eq:
  assumes std: "\<not> flt (proposal_std self) (Fin 0)"
    and ro: "rows_ok T d x0 (all_samples st)" and i: "0 < i" "i < T"
  shows "\<exists>z. MH_propose self g (rng_calls st) (all_samples st ! (i - 1)) = Inr z \<and>
           MH_iteration self g d i st =
             Inr (if flt (np_random_rand g (rng_calls st + 1))
                        (MH_acceptance_probability self (all_samples st ! (i - 1)) z)
                  then st\<lparr>all_samples := (all_samples st)[i := z], accepted := accepted st + 1,
                          rng_calls := rng_calls st + 2\<rparr>
                  else st\<lparr>all_samples := (all_samples st)[i := all_samples st ! (i - 1)],
                          rng_calls := rng_calls st + 2\<rparr>)"
proof -
  let ?cur = "all_samples st ! (i - 1)"
  from ro i have len: "length (all_samples st) = T" and lcur: "length ?cur = d"
    by (auto simp: rows_ok_def)
  from MH_propose_ok [OF std, of g "rng_calls st" ?cur] obtain z where
    z: "MH_propose self g (rng_calls st) ?cur = Inr z" "length z = d"
    using lcur by auto
  then show ?thesis
    using i len lcur by (simp add: MH_iteration_def np_getrow_ok np_setrow_ok Let_def)
qed

lemma HMC_iteration_eq:
  assumes gl: "\<forall>x. length (grad_log_density self x) = length x"
    and ro: "rows_ok T d x0 (all_samples st)" and i: "0 < i" "i < T"
  shows "\<exists>q' p'. HMC_leapfrog self (all_samples st ! (i - 1)) (np_random_randn g (rng_calls st) d) = Inr (q', p') \<and>
           HMC_iteration self g d i st =
             Inr (if flt (np_random_rand g (rng_calls st + 1))
                        (py_min (Fin 1) (fexp (fadd (fneg (hamiltonian self q' p'))
                           (hamiltonian self (all_samples st ! (i - 1)) (np_random_randn g (rng_calls st) d)))))
                  then st\<lparr>all_samples := (all_samples st)[i := q'], accepted := accepted st + 1,
                          rng_calls := rng_calls st + 2\<rparr>
                  else st\<lparr>all_samples := (all_samples st)[i := all_samples st ! (i - 1)],
                          rng_calls := rng_calls st + 2\<rparr>)"
proof -
  let ?cur = "all_samples st ! (i - 1)"
  let ?p = "np_random_randn g (rng_calls st) d"
  from ro i have len: "length (all_samples st) = T" and lcur: "length ?cur = d"
    by (auto simp: rows_ok_def)
  from HMC_leapfrog_ok [OF gl, of ?p ?cur] lcur obtain q' p' where
    z: "HMC_leapfrog self ?cur ?p = Inr (q', p')" "length q' = d"
    by auto
  then show ?thesis
    using i len lcur by (simp add: HMC_iteration_def np_getrow_ok np_setrow_ok Let_def)
qed

lemma accept_prob_neg_inf:
  assumes "a \<noteq> NaN" "a \<noteq> NInf"
  shows "py_min (Fin 1) (fexp (fsub NInf a)) = Fin 0"
  using assms by (cases a) (simp_all add: fsub_def py_min_def)

lemma never_below_zero: "0 \<le> unif g c \<Longrightarrow> \<not> flt (np_random_rand g c) (Fin 0)"
  by (simp add: np_random_rand_def)

text \<open>
  C1, as the code has it. From a chain of \<open>T\<close> rows of dimension \<open>d\<close>, every iteration
  \<open>0 < i < T\<close> of \<open>MetropolisHastings.sample\<close> (proposal scale not negative) and of
  \<open>HamiltonianMC.sample\<close> (gradient of the dimension of its argument) returns a next
  state and raises nothing, whatever the target returns. When the proposal's log-density
  is \<open>-inf\<close> and the current one is neither \<open>-inf\<close> nor NaN (MH), or \<open>H_proposed\<close> is
  \<open>+inf\<close> and \<open>H_current\<close> is neither \<open>+inf\<close> nor NaN (HMC), the acceptance probability
  is 0, row \<open>i\<close> becomes a copy of row \<open>i - 1\<close> and \<open>accepted\<close> is unchanged (the uniform
  draw is not negative).
\<close>

theorem infinite_energy_is_rejected:
  assumes "rows_ok T d x0 (all_samples st)" and "0 < i" and "i < T"
    and "\<not> flt (proposal_std mhs) (Fin 0)"
    and "\<forall>x. length (grad_log_density hs x) = length x"
    and "0 \<le> unif g (rng_calls st + 1)"
  shows "(\<exists>proposed st'.
            MH_propose mhs g (rng_calls st) (all_samples st ! (i - 1)) = Inr proposed \<and>
            MH_iteration mhs g d i st = Inr st' \<and>
            (target_log_density mhs proposed = NInf \<and>
             target_log_density mhs (all_samples st ! (i - 1)) \<noteq> NInf \<and>
             target_log_density mhs (all_samples st ! (i - 1)) \<noteq> NaN \<longrightarrow>
               MH_acceptance_probability mhs (all_samples st ! (i - 1)) proposed = Fin 0 \<and>
               all_samples st' = (all_samples st)[i := all_samples st ! (i - 1)] \<and>
               accepted st' = accepted st)) \<and>
         (\<exists>q_proposed p_proposed st'.
            HMC_leapfrog hs (all_samples st ! (i - 1)) (np_random_randn g (rng_calls st) d) =
              Inr (q_proposed, p_proposed) \<and>
            HMC_iteration hs g d i st = Inr st' \<and>
            (hamiltonian hs q_proposed p_proposed = PInf \<and>
             hamiltonian hs (all_samples st ! (i - 1)) (np_random_randn g (rng_calls st) d) \<noteq> PInf \<and>
             hamiltonian hs (all_samples st ! (i - 1)) (np_random_randn g (rng_calls st) d) \<noteq> NaN \<longrightarrow>
               py_min (Fin 1) (fexp (fadd (fneg (hamiltonian hs q_proposed p_proposed))
                 (hamiltonian hs (all_samples st ! (i - 1)) (np_random_randn g (rng_calls st) d)))) = Fin 0 \<and>
               all_samples st' = (all_samples st)[i := all_samples st ! (i - 1)] \<and>
               accepted st' = accepted st))"
proof
  let ?cur = "all_samples st ! (i - 1)"
  from MH_iteration_eq [OF assms(4) assms(1) assms(2) assms(3), of g] obtain z where
    z: "MH_propose mhs g (rng_calls st) ?cur = Inr z"
    and it: "MH_iteration mhs g d i st =
             Inr (if flt (np_random_rand g (rng_calls st + 1)) (MH_acceptance_probability mhs ?cur z)
                  then st\<lparr>all_samples := (all_samples st)[i := z], accepted := accepted st + 1,
                          rng_calls := rng_calls st + 2\<rparr>
                  else st\<lparr>all_samples := (all_samples st)[i := ?cur],
                          rng_calls := rng_calls st + 2\<rparr>)" by blast
  have "MH_acceptance_probability mhs ?cur z = Fin 0"
    if "target_log_density mhs z = NInf" "target_log_density mhs ?cur \<noteq> NInf"
       "target_log_density mhs ?cur \<noteq> NaN"
    using that accept_prob_neg_inf [of "target_log_density mhs ?cur"]
    by (simp add: MH_acceptance_probability_def)
  then show "\<exists>proposed st'.
            MH_propose mhs g (rng_calls st) ?cur = Inr proposed \<and>
            MH_iteration mhs g d i st = Inr st' \<and>
            (target_log_density mhs proposed = NInf \<and>
             target_log_density mhs ?cur \<noteq> NInf \<and>
             target_log_density mhs ?cur \<noteq> NaN \<longrightarrow>
               MH_acceptance_probability mhs ?cur proposed = Fin 0 \<and>
               all_samples st' = (all_samples st)[i := ?cur] \<and>
               accepted st' = accepted st)"
    using z it never_below_zero [OF assms(6)] by (intro exI [where x = z]) auto
next
  let ?cur = "all_samples st ! (i - 1)"
  let ?p = "np_random_randn g (rng_calls st) d"
  from HMC_iteration_eq [OF assms(5) assms(1) assms(2) assms(3), of g] obtain q' p' where
    z: "HMC_leapfrog hs ?cur ?p = Inr (q', p')"
    and it: "HMC_iteration hs g d i st =
             Inr (if flt (np_random_rand g (rng_calls st + 1))
                        (py_min (Fin 1) (fexp (fadd (fneg (hamiltonian hs q' p')) (hamiltonian hs ?cur ?p))))
                  then st\<lparr>all_samples := (all_samples st)[i := q'], accepted := accepted st + 1,
                          rng_calls := rng_calls st + 2\<rparr>
                  else st\<lparr>all_samples := (all_samples st)[i := ?cur],
                          rng_calls := rng_calls st + 2\<rparr>)" by blast
  have "py_min (Fin 1) (fexp (fadd (fneg (hamiltonian hs q' p')) (hamiltonian hs ?cur ?p))) = Fin 0"
    if "hamiltonian hs q' p' = PInf" "hamiltonian hs ?cur ?p \<noteq> PInf" "hamiltonian hs ?cur ?p \<noteq> NaN"
    using that by (cases "hamiltonian hs ?cur ?p") (simp_all add: py_min_def)
  then show "\<exists>q_proposed p_proposed st'.
            HMC_leapfrog hs ?cur ?p = Inr (q_proposed, p_proposed) \<and>
            HMC_iteration hs g d i st = Inr st' \<and>
            (hamiltonian hs q_proposed p_proposed = PInf \<and>
             hamiltonian hs ?cur ?p \<noteq> PInf \<and>
             hamiltonian hs ?cur ?p \<noteq> NaN \<longrightarrow>
               py_min (Fin 1) (fexp (fadd (fneg (hamiltonian hs q_proposed p_proposed))
                 (hamiltonian hs ?cur ?p))) = Fin 0 \<and>
               all_samples st' = (all_samples st)[i := ?cur] \<and>
               accepted st' = accepted st)"
    using z it never_below_zero [OF assms(6)]
    by (intro exI [where x = q'] exI [where x = p']) auto
qed

theorem infinite_energy_is_rejected_witness:
  "rows_ok 2 1 [Fin 0] (all_samples \<lparr>all_samples = [[Fin 0], [Fin 0]], accepted = 0, rng_calls = 0\<rparr>) \<and>
   (0::nat) < 1 \<and> (1::nat) < 2 \<and>
   \<not> flt (proposal_std inf_mh) (Fin 0) \<and>
   (\<forall>x. length (grad_log_density inf_hmc x) = length x) \<and>
   0 \<le> unif ex_rng (rng_calls \<lparr>all_samples = [[Fin 0], [Fin 0]], accepted = 0, rng_calls = 0\<rparr> + 1) \<and>
   MH_propose inf_mh ex_rng 0 [Fin 0] = Inr [Fin 1] \<and>
   target_log_density inf_mh [Fin 1] = NInf \<and> target_log_density inf_mh [Fin 0] = Fin 0 \<and>
   MH_acceptance_probability inf_mh [Fin 0] [Fin 1] = Fin 0 \<and>
   (\<exists>st'. MH_iteration inf_mh ex_rng 1 1 \<lparr>all_samples = [[Fin 0], [Fin 0]], accepted = 0, rng_calls = 0\<rparr> = Inr st' \<and>
      all_samples st' = [[Fin 0], [Fin 0]] \<and> accepted st' = 0) \<and>
   HMC_leapfrog inf_hmc [Fin 0] (np_random_randn ex_rng 0 1) = Inr ([Fin 1], [Fin (- 1)]) \<and>
   hamiltonian inf_hmc [Fin 1] [Fin (- 1)] = PInf \<and>
   hamiltonian inf_hmc [Fin 0] (np_random_randn ex_rng 0 1) = Fin (1 / 2) \<and>
   (\<exists>st'. HMC_iteration inf_hmc ex_rng 1 1 \<lparr>all_samples = [[Fin 0], [Fin 0]], accepted = 0, rng_calls = 0\<rparr> = Inr st' \<and>
      all_samples st' = [[Fin 0], [Fin 0]] \<and> accepted st' = 0)"
proof -
  let ?st = "\<lparr>all_samples = [[Fin 0], [Fin 0]], accepted = 0, rng_calls = 0\<rparr>"
  have h: "rows_ok 2 1 [Fin 0] (all_samples ?st)" "(0::nat) < 1" "(1::nat) < 2"
    "\<not> flt (proposal_std inf_mh) (Fin 0)"
    "\<forall>x. length (grad_log_density inf_hmc x) = length x"
    "0 \<le> unif ex_rng (rng_calls ?st + 1)"
    by (simp_all add: rows_ok_def inf_mh_def inf_hmc_def ex_rng_def nth_Cons')
  have e: "MH_propose inf_mh ex_rng 0 [Fin 0] = Inr [Fin 1]"
    "target_log_density inf_mh [Fin 1] = NInf" "target_log_density inf_mh [Fin 0] = Fin 0"
    "HMC_leapfrog inf_hmc [Fin 0] (np_random_randn ex_rng 0 1) = Inr ([Fin 1], [Fin (- 1)])"
    "hamiltonian inf_hmc [Fin 1] [Fin (- 1)] = PInf"
    "hamiltonian inf_hmc [Fin 0] (np_random_randn ex_rng 0 1) = Fin (1 / 2)"
    by (simp_all add: inf_mh_def inf_hmc_def ex_rng_def MH_propose_def np_random_normal_def
        np_add_def HMC_leapfrog_def np_random_randn_def np_smul_def np_neg_def hamiltonian_def
        np_sum_def np_square_def)
  from infinite_energy_is_rejected [OF h] e
  show ?thesis using h apply simp by blast
qed

subsection \<open>The tree and the doubling loop return\<close>

text \<open>
  \<open>tree_ok d\<close>: what \<open>build_tree\<close> returns on vectors of dimension \<open>d\<close>, eight
  vectors of dimension \<open>d\<close>, a count of valid states that is not negative, at least one
  acceptance statistic and a flag that is 0 or 1. \<open>traj_ok d\<close> is the same for the local
  variables of the doubling loop.
\<close>

definition tree_ok :: "nat \<Rightarrow> tree \<Rightarrow> bool" where
  "tree_ok d t =
     (length (q_new t) = d \<and> length (p_new t) = d \<and> length (q_fwd t) = d \<and>
      length (p_fwd t) = d \<and> length (q_bwd t) = d \<and> length (p_bwd t) = d \<and>
      length (q_prime t) = d \<and> length (p_prime t) = d \<and>
      0 \<le> n_prime t \<and> 1 \<le> n_alpha_prime t \<and> (s_prime t = 0 \<or> s_prime t = 1))"

lemma np_sub_same: "length xs = length ys \<Longrightarrow> np_sub xs ys = Inr (map2 fsub xs ys)"
  by (simp add: np_sub_def)

lemma np_dot_same: "length xs = length ys \<Longrightarrow> np_dot xs ys = Inr (np_sum (map2 fmul xs ys))"
  by (simp add: np_dot_def)

lemma no_u_turn_ok:
  assumes "length qf = d" "length qb = d" "length pb = d" "length pf = d"
  shows "no_u_turn qf qb pb pf =
           Inr (b2i (fge (np_sum (map2 fmul (map2 fsub qf qb) pb)) (Fin 0)) *
                b2i (fge (np_sum (map2 fmul (map2 fsub qf qb) pf)) (Fin 0)))"
  using assms by (simp add: no_u_turn_def np_sub_same np_dot_same)

lemma b2i_cases: "b2i b = 0 \<or> b2i b = 1"
  by (simp add: b2i_def)

lemma b2i_nonneg [simp]: "0 \<le> b2i b"
  by (simp add: b2i_def)

lemma tree_ok_leaf:
  "length qn = d \<Longrightarrow> length pn = d \<Longrightarrow> tree_ok d (build_tree_leaf self u q0 p0 qn pn)"
  by (simp add: tree_ok_def build_tree_leaf_def Let_def b2i_def)

lemma tree_ok_endpoints:
  "tree_ok d t \<Longrightarrow> tree_ok d t2 \<Longrightarrow> tree_ok d (build_tree_endpoints v t t2)"
  by (simp add: tree_ok_def build_tree_endpoints_def)

lemma tree_ok_choose:
  "tree_ok d t \<Longrightarrow> tree_ok d t2 \<Longrightarrow> tree_ok d (build_tree_choose g c t t2)"
  by (simp add: tree_ok_def build_tree_choose_def)

lemma build_tree_choose_counts [simp]:
  "n_alpha_prime (build_tree_choose g c t t2) = n_alpha_prime t"
  "n_prime (build_tree_choose g c t t2) = n_prime t"
  "alpha_prime (build_tree_choose g c t t2) = alpha_prime t"
  "q_fwd (build_tree_choose g c t t2) = q_fwd t" "p_fwd (build_tree_choose g c t t2) = p_fwd t"
  "q_bwd (build_tree_choose g c t t2) = q_bwd t" "p_bwd (build_tree_choose g c t t2) = p_bwd t"
  by (simp_all add: build_tree_choose_def)

lemma build_tree_endpoints_counts [simp]:
  "n_alpha_prime (build_tree_endpoints v t t2) = n_alpha_prime t"
  "n_prime (build_tree_endpoints v t t2) = n_prime t"
  "alpha_prime (build_tree_endpoints v t t2) = alpha_prime t"
  by (simp_all add: build_tree_endpoints_def)

lemma build_tree_merge_ok:
  assumes "tree_ok d t" "tree_ok d t2"
  shows "\<exists>t'. build_tree_merge g v t t2 c = Inr (t', c + 1) \<and> tree_ok d t' \<and>
           n_alpha_prime t' = n_alpha_prime t + n_alpha_prime t2"
proof -
  let ?t3 = "build_tree_choose g c (build_tree_endpoints v t t2) t2"
  have ok3: "tree_ok d ?t3"
    by (intro tree_ok_choose tree_ok_endpoints assms)
  then have l: "length (q_fwd ?t3) = d" "length (q_bwd ?t3) = d" "length (p_bwd ?t3) = d"
    "length (p_fwd ?t3) = d" by (simp_all add: tree_ok_def)
  note nu = no_u_turn_ok [OF l]
  let ?w = "b2i (fge (np_sum (map2 fmul (map2 fsub (q_fwd ?t3) (q_bwd ?t3)) (p_bwd ?t3))) (Fin 0)) *
            b2i (fge (np_sum (map2 fmul (map2 fsub (q_fwd ?t3) (q_bwd ?t3)) (p_fwd ?t3))) (Fin 0))"
  have w: "?w = 0 \<or> ?w = 1" by (simp add: b2i_def)
  let ?t' = "?t3\<lparr>alpha_prime := fadd (alpha_prime ?t3) (alpha_prime t2),
                n_alpha_prime := n_alpha_prime ?t3 + n_alpha_prime t2,
                s_prime := s_prime t2 * ?w,
                n_prime := n_prime ?t3 + n_prime t2\<rparr>"
  have eq: "build_tree_merge g v t t2 c = Inr (?t', c + 1)"
    unfolding build_tree_merge_def Let_def nu by simp
  have s: "s_prime t2 * ?w = 0 \<or> s_prime t2 * ?w = 1"
    using w assms(2) by (auto simp: tree_ok_def)
  have "tree_ok d ?t'"
    using ok3 assms s unfolding tree_ok_def by simp
  with eq show ?thesis by (intro exI [where x = ?t']) simp
qed

lemma build_tree_ok:
  assumes gl: "\<forall>x. length (grad_log_density self x) = length x"
  shows "length q = d \<Longrightarrow> length p = d \<Longrightarrow>
         \<exists>t c'. build_tree self g q p u v j eps q0 p0 c = Inr (t, c') \<and> tree_ok d t \<and>
           n_alpha_prime t \<le> 2 ^ j \<and> c \<le> c' \<and> c' < c + 2 ^ j"
proof (induction j arbitrary: q p c)
  case 0
  from NUTS_leapfrog_ok [OF gl, of p q "fmul (Fin (real_of_int v)) eps"] 0
  obtain q' p' where lf: "NUTS_leapfrog self q p (fmul (Fin (real_of_int v)) eps) = Inr (q', p')"
    "length q' = d" "length p' = d" by auto
  have "n_alpha_prime (build_tree_leaf self u q0 p0 q' p') = 1"
    by (simp add: build_tree_leaf_def Let_def)
  with lf tree_ok_leaf [OF lf(2) lf(3)] show ?case by simp
next
  case (Suc j)
  from Suc.IH [OF Suc.prems, of c] obtain t c1 where
    t: "build_tree self g q p u v j eps q0 p0 c = Inr (t, c1)" "tree_ok d t"
       "n_alpha_prime t \<le> 2 ^ j" "c \<le> c1" "c1 < c + 2 ^ j" by blast
  show ?case
  proof (cases "s_prime t = 1")
    case False
    have "(0::int) \<le> 2 ^ j" by simp
    then have "n_alpha_prime t \<le> 2 ^ Suc j" using t(3) unfolding power_Suc by linarith
    moreover have "c1 < c + 2 ^ Suc j" using t(5) by simp
    ultimately have "n_alpha_prime t \<le> 2 ^ Suc j" "c1 < c + 2 ^ Suc j" by simp_all
    with t False show ?thesis by simp
  next
    case True
    let ?q = "if v = - 1 then q_bwd t else q_fwd t"
    let ?p = "if v = - 1 then p_bwd t else p_fwd t"
    have l: "length ?q = d" "length ?p = d" using t(2) by (simp_all add: tree_ok_def)
    from Suc.IH [OF l, of c1] obtain t2 c2 where
      t2: "build_tree self g ?q ?p u v j eps q0 p0 c1 = Inr (t2, c2)" "tree_ok d t2"
        "n_alpha_prime t2 \<le> 2 ^ j" "c1 \<le> c2" "c2 < c1 + 2 ^ j" by blast
    from build_tree_merge_ok [OF t(2) t2(2), of g v c2] obtain t' where
      t': "build_tree_merge g v t t2 c2 = Inr (t', c2 + 1)" "tree_ok d t'"
        "n_alpha_prime t' = n_alpha_prime t + n_alpha_prime t2" by blast
    have second: "(if v = - 1 then build_tree self g (q_bwd t) (p_bwd t) u v j eps q0 p0 c1
                  else build_tree self g (q_fwd t) (p_fwd t) u v j eps q0 p0 c1) = Inr (t2, c2)"
      using t2(1) by (simp split: if_splits)
    have "build_tree self g q p u v (Suc j) eps q0 p0 c = Inr (t', c2 + 1)"
      using t(1) True second t'(1) by simp
    moreover have "n_alpha_prime t' \<le> 2 ^ Suc j" using t'(3) t(3) t2(3) unfolding power_Suc by linarith
    moreover have "c \<le> c2 + 1" "c2 + 1 < c + 2 ^ Suc j" using t(4,5) t2(4,5) by simp_all
    ultimately show ?thesis using t'(2) by blast
  qed
qed


definition traj_ok :: "nat \<Rightarrow> traj \<Rightarrow> bool" where
  "traj_ok d st =
     (length (tq_fwd st) = d \<and> length (tp_fwd st) = d \<and> length (tq_bwd st) = d \<and>
      length (tp_bwd st) = d \<and> length (tq_new st) = d \<and> 1 \<le> tn st)"

lemma traj_ok_init: "length q = d \<Longrightarrow> length p = d \<Longrightarrow> traj_ok d (NUTS_tree_init q p acc c)"
  by (simp add: traj_ok_def NUTS_tree_init_def)

lemma traj_ok_endpoints:
  "traj_ok d st \<Longrightarrow> tree_ok d t \<Longrightarrow> traj_ok d (NUTS_endpoints v st t)"
  by (simp add: traj_ok_def tree_ok_def NUTS_endpoints_def)

lemma NUTS_endpoints_fields [simp]:
  "tq_new (NUTS_endpoints v st t) = tq_new st" "taccepted (NUTS_endpoints v st t) = taccepted st"
  "tn (NUTS_endpoints v st t) = tn st" "tcalls (NUTS_endpoints v st t) = tcalls st"
  "tj (NUTS_endpoints v st t) = tj st"
  by (simp_all add: NUTS_endpoints_def)

lemma NUTS_accept_ok:
  assumes "traj_ok d st" "tree_ok d t"
  shows "\<exists>st'. NUTS_accept g st t c = Inr st' \<and> traj_ok d st' \<and> tj st' = tj st \<and>
           tn st' = tn st \<and> tq_fwd st' = tq_fwd st \<and> tp_fwd st' = tp_fwd st \<and>
           tq_bwd st' = tq_bwd st \<and> tp_bwd st' = tp_bwd st \<and>
           taccepted st \<le> taccepted st' \<and> taccepted st' \<le> taccepted st + 1 \<and>
           (taccepted st' = taccepted st \<longrightarrow> tq_new st' = tq_new st) \<and>
           c \<le> tcalls st' \<and> tcalls st' \<le> c + 1"
proof -
  from assms(1) have "tn st \<noteq> 0" by (simp add: traj_ok_def)
  then have d: "py_truediv (n_prime t) (tn st) = Inr (Fin (real_of_int (n_prime t) / real_of_int (tn st)))"
    by (simp add: py_truediv_def)
  show ?thesis
    using assms unfolding NUTS_accept_def d by (simp add: traj_ok_def tree_ok_def)
qed

lemma NUTS_update_ok:
  assumes "traj_ok d st" "tree_ok d t"
  shows "\<exists>st'. NUTS_update st t = Inr st' \<and> traj_ok d st' \<and> tj st' = tj st + 1 \<and>
           taccepted st' = taccepted st \<and> tq_new st' = tq_new st \<and> tcalls st' = tcalls st \<and>
           talpha st' \<noteq> None"
proof -
  from assms(1) have l: "length (tq_fwd st) = d" "length (tq_bwd st) = d" "length (tp_bwd st) = d"
    "length (tp_fwd st) = d" by (simp_all add: traj_ok_def)
  from assms have n: "1 \<le> tn st + n_prime t" by (simp add: traj_ok_def tree_ok_def)
  show ?thesis
    unfolding NUTS_update_def no_u_turn_ok [OF l] using assms(1) n by (simp add: traj_ok_def)
qed

lemma NUTS_doubling_ok:
  assumes gl: "\<forall>x. length (grad_log_density self x) = length x" and ok: "traj_ok d st"
  shows "\<exists>st'. NUTS_doubling self g u eps q p st = Inr st' \<and> traj_ok d st' \<and>
           tj st' = tj st + 1 \<and> taccepted st \<le> taccepted st' \<and> taccepted st' \<le> taccepted st + 1 \<and>
           (taccepted st' = taccepted st \<longrightarrow> tq_new st' = tq_new st) \<and>
           tcalls st < tcalls st' \<and> talpha st' \<noteq> None"
proof -
  let ?v = "NUTS_direction g (tcalls st)"
  let ?q = "if ?v = - 1 then tq_bwd st else tq_fwd st"
  let ?p = "if ?v = - 1 then tp_bwd st else tp_fwd st"
  have l: "length ?q = d" "length ?p = d" using ok by (simp_all add: traj_ok_def)
  from build_tree_ok [OF gl l, of g u ?v "tj st" eps q p "tcalls st + 1"] obtain t c where
    t: "build_tree self g ?q ?p u ?v (tj st) eps q p (tcalls st + 1) = Inr (t, c)" "tree_ok d t"
       "tcalls st + 1 \<le> c" by blast
  have bt: "(if ?v = - 1
             then build_tree self g (tq_bwd st) (tp_bwd st) u ?v (tj st) eps q p (tcalls st + 1)
             else build_tree self g (tq_fwd st) (tp_fwd st) u ?v (tj st) eps q p (tcalls st + 1)) = Inr (t, c)"
    using t(1) by (simp split: if_splits)
  let ?st1 = "NUTS_endpoints ?v st t"
  have ok1: "traj_ok d ?st1" by (rule traj_ok_endpoints [OF ok t(2)])
  from NUTS_accept_ok [OF ok1 t(2), of g c] obtain st2 where
    st2: "NUTS_accept g ?st1 t c = Inr st2" "traj_ok d st2" "tj st2 = tj st"
      "taccepted st \<le> taccepted st2" "taccepted st2 \<le> taccepted st + 1"
      "taccepted st2 = taccepted st \<longrightarrow> tq_new st2 = tq_new st" "c \<le> tcalls st2"
    by auto
  from NUTS_update_ok [OF st2(2) t(2)] obtain st' where
    st': "NUTS_update st2 t = Inr st'" "traj_ok d st'" "tj st' = tj st2 + 1"
      "taccepted st' = taccepted st2" "tq_new st' = tq_new st2" "tcalls st' = tcalls st2"
      "talpha st' \<noteq> None" by blast
  have "NUTS_doubling self g u eps q p st = Inr st'"
    unfolding NUTS_doubling_def Let_def bt using st2(1) st'(1) by simp
  then show ?thesis using st2 st' t(3) by (intro exI [where x = st']) simp
qed

lemma NUTS_tree_loop_ok:
  "\<forall>x. length (grad_log_density self x) = length x \<Longrightarrow> traj_ok d st \<Longrightarrow>
         \<exists>tr. NUTS_tree_loop self g u eps q p st = Inr tr \<and> traj_ok d tr \<and>
           tj st \<le> tj tr \<and> tj tr \<le> max (tj st) max_tree_depth \<and>
           (ts tr \<noteq> 1 \<or> max_tree_depth \<le> tj tr) \<and>
           (ts st = 1 \<and> tj st < max_tree_depth \<longrightarrow> tj st < tj tr \<and> talpha tr \<noteq> None) \<and>
           taccepted st \<le> taccepted tr \<and> taccepted tr \<le> taccepted st + int (tj tr - tj st) \<and>
           (taccepted tr = taccepted st \<longrightarrow> tq_new tr = tq_new st) \<and>
           tcalls st \<le> tcalls tr"
proof (induction self g u eps q p st rule: NUTS_tree_loop.induct)
  case (1 self g u eps q p st)
  note gl = "1.prems"(1) and ok = "1.prems"(2)
  show ?case
  proof (cases "ts st = 1 \<and> tj st < max_tree_depth")
    case False
    then show ?thesis using ok by (subst NUTS_tree_loop.simps) auto
  next
    case True
    from NUTS_doubling_ok [OF gl ok, of g u eps q p] obtain st1 where
      st1: "NUTS_doubling self g u eps q p st = Inr st1" "traj_ok d st1"
        "tj st1 = tj st + 1" "taccepted st \<le> taccepted st1" "taccepted st1 \<le> taccepted st + 1"
        "taccepted st1 = taccepted st \<longrightarrow> tq_new st1 = tq_new st"
        "tcalls st < tcalls st1" "talpha st1 \<noteq> None" by blast
    from "1.IH" [OF True st1(1) gl st1(2)] obtain tr where
      tr: "NUTS_tree_loop self g u eps q p st1 = Inr tr" "traj_ok d tr"
        "tj st1 \<le> tj tr" "tj tr \<le> max (tj st1) max_tree_depth"
        "ts tr \<noteq> 1 \<or> max_tree_depth \<le> tj tr"
        "ts st1 = 1 \<and> tj st1 < max_tree_depth \<longrightarrow> tj st1 < tj tr \<and> talpha tr \<noteq> None"
        "taccepted st1 \<le> taccepted tr" "taccepted tr \<le> taccepted st1 + int (tj tr - tj st1)"
        "taccepted tr = taccepted st1 \<longrightarrow> tq_new tr = tq_new st1"
        "tcalls st1 \<le> tcalls tr" by blast
    have run: "NUTS_tree_loop self g u eps q p st = Inr tr"
      using True st1(1) tr(1) by (subst NUTS_tree_loop.simps) simp
    have al: "talpha tr \<noteq> None"
    proof (cases "ts st1 = 1 \<and> tj st1 < max_tree_depth")
      case True
      with tr(6) show ?thesis by simp
    next
      case False
      then have "NUTS_tree_loop self g u eps q p st1 = Inr st1"
        by (subst NUTS_tree_loop.simps) auto
      with tr(1) st1(8) show ?thesis by simp
    qed
    show ?thesis
      using run tr st1 True al by (intro exI [where x = tr]) auto
  qed
qed

subsection \<open>The no-U-turn test\<close>









lemma ex_nuts_ok: "\<forall>x. length (grad_log_density ex_nuts x) = length x"
  by (simp add: ex_nuts_def)




subsection \<open>Termination of the tree and of the doubling loop\<close>

text \<open>
  C3. On vectors of one dimension, with a gradient of the dimension of its argument,
  \<open>build_tree\<close> returns at every depth \<open>j\<close> after at least one and at most \<open>2 ^ j\<close>
  leapfrog steps (the count \<open>n_alpha\<close>) and fewer than \<open>2 ^ j\<close> calls to the random
  generator, and the doubling loop of an outer iteration returns after at least one and at
  most \<open>max_tree_depth = 10\<close> doublings; when its flag is still 1 at the end it has made
  exactly 10.
\<close>

theorem build_tree_and_doubling_terminate:
  assumes "\<forall>x. length (grad_log_density self x) = length x" and "length q = d" and "length p = d"
  shows "(\<exists>t c'. build_tree self g q p u v j eps q0 p0 c = Inr (t, c') \<and>
            1 \<le> n_alpha_prime t \<and> n_alpha_prime t \<le> 2 ^ j \<and> c \<le> c' \<and> c' < c + 2 ^ j) \<and>
         (\<exists>tr. NUTS_tree_loop self g u eps q p (NUTS_tree_init q p acc c) = Inr tr \<and>
            1 \<le> tj tr \<and> tj tr \<le> max_tree_depth \<and> max_tree_depth = 10 \<and>
            (ts tr = 1 \<longrightarrow> tj tr = max_tree_depth))"
proof
  from build_tree_ok [OF assms, of g u v j eps q0 p0 c]
  show "\<exists>t c'. build_tree self g q p u v j eps q0 p0 c = Inr (t, c') \<and>
            1 \<le> n_alpha_prime t \<and> n_alpha_prime t \<le> 2 ^ j \<and> c \<le> c' \<and> c' < c + 2 ^ j"
    by (auto simp: tree_ok_def)
next
  let ?t0 = "NUTS_tree_init q p acc c"
  have ok0: "traj_ok d ?t0" by (rule traj_ok_init [OF assms(2,3)])
  have st0: "ts ?t0 = 1 \<and> tj ?t0 < max_tree_depth" "tj ?t0 = 0"
    by (simp_all add: NUTS_tree_init_def max_tree_depth_def)
  from NUTS_tree_loop_ok [OF assms(1) ok0, of g u eps q p] st0 obtain tr where
    tr: "NUTS_tree_loop self g u eps q p ?t0 = Inr tr" "tj tr \<le> max_tree_depth" "1 \<le> tj tr"
      "ts tr \<noteq> 1 \<or> max_tree_depth \<le> tj tr"
    by (auto simp: max_tree_depth_def)
  then show "\<exists>tr. NUTS_tree_loop self g u eps q p ?t0 = Inr tr \<and>
            1 \<le> tj tr \<and> tj tr \<le> max_tree_depth \<and> max_tree_depth = 10 \<and>
            (ts tr = 1 \<longrightarrow> tj tr = max_tree_depth)"
    by (intro exI [where x = tr]) (auto simp: max_tree_depth_def)
qed

theorem build_tree_and_doubling_terminate_witness:
  "(\<forall>x. length (grad_log_density ex_nuts x) = length x) \<and>
   length [Fin 0] = 1 \<and> length [Fin 1] = 1 \<and>
   (\<exists>t c'. build_tree ex_nuts ex_rng [Fin 0] [Fin 1] (Fin 0) 1 3 (Fin 1) [Fin 0] [Fin 1] 0 = Inr (t, c') \<and>
      1 \<le> n_alpha_prime t \<and> n_alpha_prime t \<le> 2 ^ 3 \<and> 0 \<le> c' \<and> c' < 0 + 2 ^ 3) \<and>
   (\<exists>tr. NUTS_tree_loop ex_nuts ex_rng (Fin 0) (Fin 1) [Fin 0] [Fin 1]
            (NUTS_tree_init [Fin 0] [Fin 1] 0 0) = Inr tr \<and>
      1 \<le> tj tr \<and> tj tr \<le> max_tree_depth \<and> max_tree_depth = 10 \<and>
      (ts tr = 1 \<longrightarrow> tj tr = max_tree_depth))"
proof -
  have h: "length [Fin 0] = 1" "length [Fin 1] = 1" by simp_all
  from build_tree_and_doubling_terminate [OF ex_nuts_ok h, of ex_rng "Fin 0" 1 3 "Fin 1" "[Fin 0]" "[Fin 1]" 0 0]
  show ?thesis using ex_nuts_ok by simp
qed

subsection \<open>The run of NUTS\<close>




















subsection \<open>The adaptation of the step size\<close>



subsection \<open>The leapfrog integrator of HMC is an involution\<close>

text \<open>
  The body of the loop of \<open>HamiltonianMC.leapfrog\<close> as a step of its own, and the
  vectors of reals with the operations that the array operations are on finite values.
\<close>

definition HMC_step :: "hmc \<Rightarrow> vec \<Rightarrow> vec \<Rightarrow> py_error + (vec \<times> vec)" where
  "HMC_step self q p =
     ebind (np_add q (np_smul (epsilon self) p)) (\<lambda>q1.
     ebind (np_add p (np_smul (epsilon self) (grad_log_density self q1))) (\<lambda>p1.
       Inr (q1, p1)))"

definition rv_add :: "real list \<Rightarrow> real list \<Rightarrow> real list" where
  "rv_add xs ys = map2 (+) xs ys"

definition rv_smul :: "real \<Rightarrow> real list \<Rightarrow> real list" where
  "rv_smul c xs = map ((*) c) xs"

definition rv_neg :: "real list \<Rightarrow> real list" where
  "rv_neg xs = map uminus xs"

lemma rv_length [simp]:
  "length (rv_add xs ys) = min (length xs) (length ys)"
  "length (rv_smul c xs) = length xs" "length (rv_neg xs) = length xs"
  by (simp_all add: rv_add_def rv_smul_def rv_neg_def)

lemma map2_fadd_Fin:
  "length xs = length ys \<Longrightarrow> map2 fadd (map Fin xs) (map Fin ys) = map Fin (map2 (+) xs ys)"
  by (induction xs ys rule: list_induct2) simp_all

lemma np_add_Fin:
  "length xs = length ys \<Longrightarrow> np_add (map Fin xs) (map Fin ys) = Inr (map Fin (rv_add xs ys))"
  unfolding np_add_def rv_add_def by (simp only: length_map map2_fadd_Fin simp_thms if_True)

lemma np_smul_Fin: "np_smul (Fin c) (map Fin xs) = map Fin (rv_smul c xs)"
  by (simp add: np_smul_def rv_smul_def)

lemma np_neg_Fin: "np_neg (map Fin xs) = map Fin (rv_neg xs)"
  by (simp add: np_neg_def rv_neg_def)

lemma rv_kick_back:
  "length p = length gr \<Longrightarrow> rv_add (rv_neg (rv_add p (rv_smul c gr))) (rv_smul c gr) = rv_neg p"
  unfolding rv_add_def rv_smul_def rv_neg_def
  by (induction p gr rule: list_induct2) simp_all

lemma rv_drift_back:
  "length q = length p \<Longrightarrow> rv_add (rv_add q (rv_smul e p)) (rv_smul e (rv_neg p)) = q"
  unfolding rv_add_def rv_smul_def rv_neg_def
  by (induction q p rule: list_induct2) simp_all

lemma rv_neg_neg: "rv_neg (rv_neg p) = p"
  by (simp add: rv_neg_def)

lemma ebind_assoc: "ebind (ebind m f) k = ebind m (\<lambda>x. ebind (f x) k)"
  by (cases m) simp_all

lemma ebind_Inr_pair: "ebind m (\<lambda>(a, b). Inr (a, b)) = m"
  by (cases m) auto

lemma HMC_leapfrog_loop_Suc:
  "HMC_leapfrog_loop self (Suc n) q p =
     ebind (HMC_step self q p) (\<lambda>(q1, p1). HMC_leapfrog_loop self n q1 p1)"
  by (simp add: HMC_step_def ebind_assoc)

lemma HMC_leapfrog_loop_Suc_end:
  "HMC_leapfrog_loop self (Suc n) q p =
     ebind (HMC_leapfrog_loop self n q p) (\<lambda>(q1, p1). HMC_step self q1 p1)"
proof (induction n arbitrary: q p)
  case 0
  show ?case unfolding HMC_leapfrog_loop_Suc by (cases "HMC_step self q p") auto
next
  case (Suc n)
  show ?case
  proof (cases "HMC_step self q p")
    case (Inl e)
    then show ?thesis unfolding HMC_leapfrog_loop_Suc [of self "Suc n"] HMC_leapfrog_loop_Suc [of self n q p]
      by simp
  next
    case (Inr qp)
    obtain q1 p1 where qp: "qp = (q1, p1)" by (cases qp)
    have "HMC_leapfrog_loop self (Suc (Suc n)) q p = HMC_leapfrog_loop self (Suc n) q1 p1"
      unfolding HMC_leapfrog_loop_Suc [of self "Suc n" q p] Inr qp by simp
    also have "\<dots> = ebind (HMC_leapfrog_loop self n q1 p1) (\<lambda>(q1, p1). HMC_step self q1 p1)"
      by (rule Suc.IH)
    also have "HMC_leapfrog_loop self n q1 p1 = HMC_leapfrog_loop self (Suc n) q p"
      unfolding HMC_leapfrog_loop_Suc [of self n q p] Inr qp by simp
    finally show ?thesis .
  qed
qed

lemma HMC_step_Fin:
  assumes eps: "epsilon self = Fin e"
    and G: "\<And>x. grad_log_density self (map Fin x) = map Fin (G x)" "\<And>x. length (G x) = length x"
    and l: "length p = length q"
  shows "HMC_step self (map Fin q) (map Fin p) =
           Inr (map Fin (rv_add q (rv_smul e p)),
                map Fin (rv_add p (rv_smul e (G (rv_add q (rv_smul e p))))))"
proof -
  have a: "np_add (map Fin q) (map Fin (rv_smul e p)) = Inr (map Fin (rv_add q (rv_smul e p)))"
    by (rule np_add_Fin) (simp add: l)
  have b: "np_add (map Fin p) (map Fin (rv_smul e (G (rv_add q (rv_smul e p))))) =
             Inr (map Fin (rv_add p (rv_smul e (G (rv_add q (rv_smul e p))))))"
    by (rule np_add_Fin) (simp add: l G(2))
  show ?thesis
    unfolding HMC_step_def eps np_smul_Fin a ebind.simps G(1) b ..
qed

lemma HMC_leapfrog_loop_reverse:
  assumes eps: "epsilon self = Fin e"
    and G: "\<And>x. grad_log_density self (map Fin x) = map Fin (G x)" "\<And>x. length (G x) = length x"
  shows "length p = length q \<Longrightarrow>
         \<exists>q' p'. length q' = length q \<and> length p' = length q \<and>
           HMC_leapfrog_loop self n (map Fin q) (map Fin p) = Inr (map Fin q', map Fin p') \<and>
           HMC_leapfrog_loop self n (map Fin (rv_add q' (rv_smul e p'))) (map Fin (rv_neg p')) =
             Inr (map Fin (rv_add q (rv_smul e p)), map Fin (rv_neg p))"
proof (induction n arbitrary: q p)
  case 0
  then show ?case by (intro exI [where x = q] exI [where x = p]) simp
next
  case (Suc n)
  let ?q1 = "rv_add q (rv_smul e p)"
  let ?p1 = "rv_add p (rv_smul e (G ?q1))"
  have l1: "length ?q1 = length q" "length ?p1 = length q" "length ?p1 = length ?q1"
    using Suc.prems by (simp_all add: G(2))
  from Suc.IH [OF l1(3)] l1 obtain q' p' where
    l': "length q' = length q" "length p' = length q"
    and fw: "HMC_leapfrog_loop self n (map Fin ?q1) (map Fin ?p1) = Inr (map Fin q', map Fin p')"
    and bw: "HMC_leapfrog_loop self n (map Fin (rv_add q' (rv_smul e p'))) (map Fin (rv_neg p')) =
               Inr (map Fin (rv_add ?q1 (rv_smul e ?p1)), map Fin (rv_neg ?p1))"
    by auto
  have step: "HMC_step self (map Fin q) (map Fin p) = Inr (map Fin ?q1, map Fin ?p1)"
    by (rule HMC_step_Fin [OF eps G Suc.prems])
  have fw': "HMC_leapfrog_loop self (Suc n) (map Fin q) (map Fin p) = Inr (map Fin q', map Fin p')"
    unfolding HMC_leapfrog_loop_Suc step using fw by simp
  have ln: "length (rv_neg ?p1) = length (rv_add ?q1 (rv_smul e ?p1))"
    using l1 by simp
  have stepb: "HMC_step self (map Fin (rv_add ?q1 (rv_smul e ?p1))) (map Fin (rv_neg ?p1)) =
      Inr (map Fin (rv_add (rv_add ?q1 (rv_smul e ?p1)) (rv_smul e (rv_neg ?p1))),
           map Fin (rv_add (rv_neg ?p1)
              (rv_smul e (G (rv_add (rv_add ?q1 (rv_smul e ?p1)) (rv_smul e (rv_neg ?p1)))))))"
    by (rule HMC_step_Fin [OF eps G ln])
  have d: "rv_add (rv_add ?q1 (rv_smul e ?p1)) (rv_smul e (rv_neg ?p1)) = ?q1"
    by (rule rv_drift_back) (use l1 in simp)
  have k: "rv_add (rv_neg ?p1) (rv_smul e (G ?q1)) = rv_neg p"
    by (rule rv_kick_back) (use Suc.prems l1 in \<open>simp add: G(2)\<close>)
  have bw': "HMC_leapfrog_loop self (Suc n) (map Fin (rv_add q' (rv_smul e p'))) (map Fin (rv_neg p')) =
      Inr (map Fin ?q1, map Fin (rv_neg p))"
    unfolding HMC_leapfrog_loop_Suc_end bw ebind.simps prod.case stepb d k ..
  from l' fw' bw' show ?case by blast
qed

lemma fmul_half: "fmul (Fin 0.5) (Fin e) = Fin (e / 2)"
  by simp

lemma HMC_leapfrog_Fin:
  assumes eps: "epsilon self = Fin e"
    and G: "\<And>x. grad_log_density self (map Fin x) = map Fin (G x)" "\<And>x. length (G x) = length x"
    and l: "length p = length q"
    and loop: "HMC_leapfrog_loop self (nat (L self - 1)) (map Fin q)
                 (map Fin (rv_add p (rv_smul (e / 2) (G q)))) = Inr (map Fin q2, map Fin p2)"
    and l2: "length q2 = length q" "length p2 = length q"
  shows "HMC_leapfrog self (map Fin q) (map Fin p) =
           Inr (map Fin (rv_add q2 (rv_smul e p2)),
                map Fin (rv_neg (rv_add p2 (rv_smul (e / 2) (G (rv_add q2 (rv_smul e p2)))))))"
proof -
  have a: "np_add (map Fin p) (map Fin (rv_smul (e / 2) (G q))) =
             Inr (map Fin (rv_add p (rv_smul (e / 2) (G q))))"
    by (rule np_add_Fin) (simp add: l G(2))
  have b: "np_add (map Fin q2) (map Fin (rv_smul e p2)) = Inr (map Fin (rv_add q2 (rv_smul e p2)))"
    by (rule np_add_Fin) (simp add: l2)
  have c: "np_add (map Fin p2) (map Fin (rv_smul (e / 2) (G (rv_add q2 (rv_smul e p2))))) =
             Inr (map Fin (rv_add p2 (rv_smul (e / 2) (G (rv_add q2 (rv_smul e p2))))))"
    by (rule np_add_Fin) (simp add: l2 G(2))
  show ?thesis
    unfolding HMC_leapfrog_def eps fmul_half np_smul_Fin G(1) a ebind.simps loop prod.case b c
      np_neg_Fin ..
qed

text \<open>
  C6. In exact real arithmetic, that is on vectors of finite values, with a finite step
  size and a gradient that maps a finite vector to a finite vector of the same dimension,
  \<open>HamiltonianMC.leapfrog\<close> returns, and applied to its own result it returns the
  position and the momentum it started from. This holds for every number of steps \<open>L\<close>
  (for \<open>L \<le> 1\<close> the loop is empty and the integrator makes one step).
\<close>

theorem leapfrog_is_its_own_inverse:
  assumes "epsilon self = Fin e"
    and "\<forall>x. \<exists>y. length y = length x \<and> grad_log_density self (map Fin x) = map Fin y"
    and "length p = length q"
  shows "\<exists>q' p'. length q' = length q \<and> length p' = length q \<and>
           HMC_leapfrog self (map Fin q) (map Fin p) = Inr (map Fin q', map Fin p') \<and>
           HMC_leapfrog self (map Fin q') (map Fin p') = Inr (map Fin q, map Fin p)"
proof -
  from assms(2) have "\<exists>G. \<forall>x. length (G x) = length x \<and> grad_log_density self (map Fin x) = map Fin (G x)"
    by (rule choice)
  then obtain G where G: "\<And>x. grad_log_density self (map Fin x) = map Fin (G x)"
    "\<And>x. length (G x) = length x" by blast
  note eps = assms(1) and l = assms(3)
  let ?n = "nat (L self - 1)"
  let ?p1 = "rv_add p (rv_smul (e / 2) (G q))"
  have l1: "length ?p1 = length q" using l by (simp add: G(2))
  from HMC_leapfrog_loop_reverse [OF eps G l1, of ?n] obtain q2 p2 where
    l2: "length q2 = length q" "length p2 = length q"
    and fw: "HMC_leapfrog_loop self ?n (map Fin q) (map Fin ?p1) = Inr (map Fin q2, map Fin p2)"
    and bw: "HMC_leapfrog_loop self ?n (map Fin (rv_add q2 (rv_smul e p2))) (map Fin (rv_neg p2)) =
               Inr (map Fin (rv_add q (rv_smul e ?p1)), map Fin (rv_neg ?p1))"
    by blast
  let ?q3 = "rv_add q2 (rv_smul e p2)"
  let ?p3 = "rv_add p2 (rv_smul (e / 2) (G ?q3))"
  have l3: "length ?q3 = length q" "length ?p3 = length q" "length (rv_neg ?p3) = length ?q3"
    using l2 by (simp_all add: G(2))
  have forward: "HMC_leapfrog self (map Fin q) (map Fin p) = Inr (map Fin ?q3, map Fin (rv_neg ?p3))"
    by (rule HMC_leapfrog_Fin [OF eps G l fw l2])
  have k1: "rv_add (rv_neg ?p3) (rv_smul (e / 2) (G ?q3)) = rv_neg p2"
    by (rule rv_kick_back) (use l2 in \<open>simp add: G(2)\<close>)
  have bw': "HMC_leapfrog_loop self ?n (map Fin ?q3)
               (map Fin (rv_add (rv_neg ?p3) (rv_smul (e / 2) (G ?q3)))) =
             Inr (map Fin (rv_add q (rv_smul e ?p1)), map Fin (rv_neg ?p1))"
    unfolding k1 by (rule bw)
  have lb: "length (rv_add q (rv_smul e ?p1)) = length ?q3" "length (rv_neg ?p1) = length ?q3"
    using l l1 l3 by simp_all
  have d: "rv_add (rv_add q (rv_smul e ?p1)) (rv_smul e (rv_neg ?p1)) = q"
    by (rule rv_drift_back) (use l1 in simp)
  have k2: "rv_add (rv_neg ?p1) (rv_smul (e / 2) (G q)) = rv_neg p"
    by (rule rv_kick_back) (use l in \<open>simp add: G(2)\<close>)
  have "HMC_leapfrog self (map Fin ?q3) (map Fin (rv_neg ?p3)) =
          Inr (map Fin (rv_add (rv_add q (rv_smul e ?p1)) (rv_smul e (rv_neg ?p1))),
               map Fin (rv_neg (rv_add (rv_neg ?p1)
                 (rv_smul (e / 2) (G (rv_add (rv_add q (rv_smul e ?p1)) (rv_smul e (rv_neg ?p1))))))))"
    by (rule HMC_leapfrog_Fin [OF eps G l3(3) bw' lb])
  then have backward: "HMC_leapfrog self (map Fin ?q3) (map Fin (rv_neg ?p3)) = Inr (map Fin q, map Fin p)"
    unfolding d k2 rv_neg_neg .
  from l3 forward backward show ?thesis
    by (intro exI [where x = ?q3] exI [where x = "rv_neg ?p3"]) simp
qed

theorem leapfrog_is_its_own_inverse_witness:
  "epsilon ex_hmc2 = Fin (1 / 2) \<and>
   (\<forall>x. \<exists>y. length y = length x \<and> grad_log_density ex_hmc2 (map Fin x) = map Fin y) \<and>
   length [0, 2 :: real] = length [1, - 1 :: real] \<and>
   (\<exists>q' p'. length q' = length [1, - 1 :: real] \<and> length p' = length [1, - 1 :: real] \<and>
      HMC_leapfrog ex_hmc2 (map Fin [1, - 1]) (map Fin [0, 2]) = Inr (map Fin q', map Fin p') \<and>
      HMC_leapfrog ex_hmc2 (map Fin q') (map Fin p') = Inr (map Fin [1, - 1], map Fin [0, 2]))"
proof -
  have e: "epsilon ex_hmc2 = Fin (1 / 2)" by (simp add: ex_hmc2_def)
  have "length (rv_neg x) = length x \<and> grad_log_density ex_hmc2 (map Fin x) = map Fin (rv_neg x)" for x
    by (simp add: ex_hmc2_def np_neg_Fin)
  then have gr: "\<forall>x. \<exists>y. length y = length x \<and> grad_log_density ex_hmc2 (map Fin x) = map Fin y"
    by blast
  have l: "length [0, 2 :: real] = length [1, - 1 :: real]" by simp
  from leapfrog_is_its_own_inverse [OF e gr l] e gr l show ?thesis by blast
qed


end
